theory Spec2Isabelle
  imports Main "HOL-Library.Word" "HOL-Library.AList"
begin

section \<open>Data model of \<open>network_stats.h\<close>\<close>

text \<open>The two enumerations, in declaration order (the order in which a
  \<open>std::map\<close> or \<open>std::set\<close> keyed by them is iterated).\<close>

datatype rx_fields =
    RX_BYTES | RX_COMPRESSED | RX_CRC_ERRORS | RX_DROPPED | RX_ERRORS
  | RX_FIFO_ERRORS | RX_FRAME_ERRORS | RX_LENGTH_ERRORS | RX_MISSED_ERRORS
  | RX_OVER_ERRORS | RX_PACKETS

datatype tx_fields =
    TX_ABORTED_ERRORS | TX_BYTES | TX_CARRIER_ERRORS | TX_COMPRESSED
  | TX_DROPPED | TX_ERRORS | TX_FIFO_ERRORS | TX_HEARTBEAT_ERRORS
  | TX_PACKETS | TX_WINDOW_ERRORS

definition all_rx_fields :: "rx_fields list" where
  "all_rx_fields =
     [RX_BYTES, RX_COMPRESSED, RX_CRC_ERRORS, RX_DROPPED, RX_ERRORS,
      RX_FIFO_ERRORS, RX_FRAME_ERRORS, RX_LENGTH_ERRORS, RX_MISSED_ERRORS,
      RX_OVER_ERRORS, RX_PACKETS]"

definition all_tx_fields :: "tx_fields list" where
  "all_tx_fields =
     [TX_ABORTED_ERRORS, TX_BYTES, TX_CARRIER_ERRORS, TX_COMPRESSED,
      TX_DROPPED, TX_ERRORS, TX_FIFO_ERRORS, TX_HEARTBEAT_ERRORS,
      TX_PACKETS, TX_WINDOW_ERRORS]"

text \<open>\<open>struct receive_data\<close> and \<open>struct transmit_data\<close>: every member is a
  \<open>uint64_t\<close>. The members of the second struct carry the prefix \<open>tx_\<close>
  here, because six of them share their name with a member of the first.\<close>

record receive_data =
  bytes :: "64 word"
  compressed :: "64 word"
  CRC_errors :: "64 word"
  dropped :: "64 word"
  errors :: "64 word"
  FIFO_errors :: "64 word"
  frame_errors :: "64 word"
  length_errors :: "64 word"
  missed_errors :: "64 word"
  over_errors :: "64 word"
  packets :: "64 word"

record transmit_data =
  tx_aborted_errors :: "64 word"
  tx_bytes :: "64 word"
  tx_carrier_errors :: "64 word"
  tx_compressed :: "64 word"
  tx_dropped :: "64 word"
  tx_errors :: "64 word"
  tx_FIFO_errors :: "64 word"
  tx_heartbeat_errors :: "64 word"
  tx_packets :: "64 word"
  tx_window_errors :: "64 word"

text \<open>\<open>struct netdata\<close>: the value pulled from a stats file and the file
  descriptor of that file (\<open>value\<close> and \<open>fd\<close> in the source).\<close>

record netdata =
  nd_value :: "64 word"
  nd_fd :: int

text \<open>\<open>netdata(int file_d, uint64_t v = 0)\<close> with the default argument.\<close>

definition netdata_of_fd :: "int \<Rightarrow> netdata" where
  "netdata_of_fd file_d = \<lparr>nd_value = 0, nd_fd = file_d\<rparr>"

text \<open>The object: \<open>interface_name_\<close>, \<open>interface_stats_path_\<close>,
  \<open>rx_to_update_\<close> and \<open>tx_to_update_\<close>. The two \<open>std::map\<close>s are finite
  maps; they are iterated in key order, that is along \<open>all_rx_fields\<close> and
  \<open>all_tx_fields\<close>.\<close>

record network_stats =
  interface_name :: string
  interface_stats_path :: string
  rx_to_update :: "rx_fields \<rightharpoonup> netdata"
  tx_to_update :: "tx_fields \<rightharpoonup> netdata"

section \<open>What the program prints and throws (\<open>program_IO.h\<close>)\<close>

text \<open>The reason of an exception: one constructor per message of
  \<open>network_stats.cpp\<close>, with the arguments of its format string.\<close>

datatype reason =
    Cannot_find_path string string
  | Closing_dir string string
  | Lseek_failed int
  | Read_full int int
  | Read_nothing int int
  | Unable_to_convert string int
  | Opening_stats_file string string

text \<open>Both macros throw a \<open>std::runtime_error\<close>. \<open>ERROR\<close> (the macro
  \<open>error\<close>, "for OS-related errors") appends \<open>strerror(errno)\<close> to the message:
  the constructor carries the value of \<open>errno\<close> at the throw. \<open>RUNTIME\<close> (the
  macro \<open>runtime\<close>) carries the message alone.\<close>

datatype exn =
    ERROR reason int
  | RUNTIME reason

text \<open>A line on \<open>std::cout\<close>. \<open>CPRINT\<close> prints because the Makefile builds with
  \<open>DEBUG_ON=1\<close>; \<open>Vprint e\<close> is the line the macro \<open>exception\<close> prints
  before it throws \<open>e\<close>; \<open>Badness\<close> is a line of the macro
  \<open>report_error\<close>.\<close>

datatype msg =
    Building_map
  | Got_stats_path string
  | Shutting_down
  | Already_monitoring string
  | Opening string string
  | Got_fd string int
  | Vprint exn
  | Badness string int

section \<open>The operating system and the C library\<close>

text \<open>What a path names: a directory, a readable text resource with its
  current content, or a resource every read of which fails with the given
  error number.\<close>

datatype resource = Directory | Text string | Failing int

text \<open>A system call the process made, with what it returned.\<close>

datatype syscall =
    Sys_opendir string bool
  | Sys_closedir string int
  | Sys_open string int
  | Sys_lseek int int
  | Sys_read int int
  | Sys_close int int

text \<open>The state of the process outside the object:
  \<^item> \<open>errno\<close>: the C library's error number; a call that succeeds leaves it
    as it is;
  \<^item> \<open>resources\<close>: the file system, by path;
  \<^item> \<open>fdtab\<close>: the open file descriptors, each with its path and offset;
  \<^item> \<open>close_error\<close>: the descriptors whose \<open>close\<close> will report a failure,
    with the error number;
  \<^item> \<open>noconv_einval\<close>: whether this C library's \<open>strtol\<close> sets \<open>errno\<close> to
    \<open>EINVAL\<close> when it finds no digits (POSIX allows it; glibc does not do it);
  \<^item> \<open>maps_built\<close>: whether the static maps \<open>rx_fields_to_filename\<close> and
    \<open>tx_fields_to_filename\<close> are filled;
  \<^item> \<open>calls\<close>: the system calls made so far, oldest first;
  \<^item> \<open>stdout\<close>: the lines printed so far, oldest first.\<close>

record os_state =
  errno :: int
  resources :: "string \<rightharpoonup> resource"
  fdtab :: "(int \<times> string \<times> nat) list"
  close_error :: "int \<rightharpoonup> int"
  noconv_einval :: bool
  maps_built :: bool
  calls :: "syscall list"
  stdout :: "msg list"

abbreviation (input) ENOENT :: int where "ENOENT \<equiv> 2"
abbreviation (input) EINTR :: int where "EINTR \<equiv> 4"
abbreviation (input) EBADF :: int where "EBADF \<equiv> 9"
abbreviation (input) ENODEV :: int where "ENODEV \<equiv> 19"
abbreviation (input) EISDIR :: int where "EISDIR \<equiv> 21"
abbreviation (input) EINVAL :: int where "EINVAL \<equiv> 22"
abbreviation (input) ERANGE :: int where "ERANGE \<equiv> 34"

text \<open>\<open>long\<close> is 64 bits wide (LP64).\<close>

abbreviation (input) LONG_MAX :: int where "LONG_MAX \<equiv> 9223372036854775807"
abbreviation (input) LONG_MIN :: int where "LONG_MIN \<equiv> - 9223372036854775808"

abbreviation (input) NUL :: char where "NUL \<equiv> CHR 0x00"

definition called :: "syscall \<Rightarrow> os_state \<Rightarrow> os_state" where
  "called c s = s\<lparr>calls := calls s @ [c]\<rparr>"

definition print :: "msg \<Rightarrow> os_state \<Rightarrow> os_state" where
  "print m s = s\<lparr>stdout := stdout s @ [m]\<rparr>"

text \<open>The macro \<open>exception\<close>: print the message, then throw.\<close>

definition throw :: "os_state \<Rightarrow> exn \<Rightarrow> os_state \<times> (exn + 'a)" where
  "throw s e = (print (Vprint e) s, Inl e)"

text \<open>The same inside a member function that has the object \<open>m\<close> in hand: the
  object stays as it is at the throw.\<close>

definition throw_from :: "os_state \<Rightarrow> 'm \<Rightarrow> exn \<Rightarrow> os_state \<times> 'm \<times> exn option" where
  "throw_from s m e = (print (Vprint e) s, m, Some e)"

text \<open>\<open>open\<close> returns the lowest descriptor that is not open: among
  \<open>0 .. length used\<close> at least one is free.\<close>

fun lowest_free_from :: "int list \<Rightarrow> nat \<Rightarrow> int \<Rightarrow> int" where
  "lowest_free_from used 0 n = n"
| "lowest_free_from used (Suc k) n =
     (if n \<in> set used then lowest_free_from used k (n + 1) else n)"

definition lowest_free :: "int list \<Rightarrow> int" where
  "lowest_free used = lowest_free_from used (length used) 0"

text \<open>\<open>opendir\<close> succeeds on a directory only. The descriptor it takes is
  released by \<open>closedir\<close>, which follows at once and succeeds on the stream
  that \<open>opendir\<close> returned: the pair leaves the descriptor table as it was.\<close>

definition sys_opendir :: "os_state \<Rightarrow> string \<Rightarrow> os_state \<times> bool" where
  "sys_opendir s path =
     (case resources s path of
        Some Directory \<Rightarrow> (called (Sys_opendir path True) s, True)
      | _ \<Rightarrow> (called (Sys_opendir path False) (s\<lparr>errno := ENOENT\<rparr>), False))"

definition sys_closedir :: "os_state \<Rightarrow> string \<Rightarrow> os_state \<times> int" where
  "sys_closedir s path = (called (Sys_closedir path 0) s, 0)"

text \<open>\<open>open(path, O_RDONLY)\<close>.\<close>

definition sys_open :: "os_state \<Rightarrow> string \<Rightarrow> os_state \<times> int" where
  "sys_open s path =
     (case resources s path of
        None \<Rightarrow> (called (Sys_open path (- 1)) (s\<lparr>errno := ENOENT\<rparr>), - 1)
      | Some r \<Rightarrow>
          (let newfd = lowest_free (map fst (fdtab s))
           in (called (Sys_open path newfd)
                 (s\<lparr>fdtab := (newfd, path, 0) # fdtab s\<rparr>), newfd)))"

text \<open>\<open>lseek(fd, offset, SEEK_SET)\<close>.\<close>

definition sys_lseek :: "os_state \<Rightarrow> int \<Rightarrow> nat \<Rightarrow> os_state \<times> int" where
  "sys_lseek s fd offset =
     (case map_of (fdtab s) fd of
        None \<Rightarrow> (called (Sys_lseek fd (- 1)) (s\<lparr>errno := EBADF\<rparr>), - 1)
      | Some (path, off) \<Rightarrow>
          (called (Sys_lseek fd (int offset))
             (s\<lparr>fdtab := AList.update fd (path, offset) (fdtab s)\<rparr>), int offset))"

text \<open>\<open>read(fd, buf, count)\<close>: the number returned and the bytes stored at
  the start of the buffer. The content of a resource is looked up when it is
  read.\<close>

definition sys_read :: "os_state \<Rightarrow> int \<Rightarrow> nat \<Rightarrow> os_state \<times> int \<times> string" where
  "sys_read s fd count =
     (case map_of (fdtab s) fd of
        None \<Rightarrow> (called (Sys_read fd (- 1)) (s\<lparr>errno := EBADF\<rparr>), - 1, [])
      | Some (path, off) \<Rightarrow>
          (case resources s path of
             None \<Rightarrow> (called (Sys_read fd (- 1)) (s\<lparr>errno := ENODEV\<rparr>), - 1, [])
           | Some Directory \<Rightarrow>
               (called (Sys_read fd (- 1)) (s\<lparr>errno := EISDIR\<rparr>), - 1, [])
           | Some (Failing e) \<Rightarrow>
               (called (Sys_read fd (- 1)) (s\<lparr>errno := e\<rparr>), - 1, [])
           | Some (Text c) \<Rightarrow>
               (let data = take count (drop off c)
                in (called (Sys_read fd (int (length data)))
                      (s\<lparr>fdtab := AList.update fd (path, off + length data) (fdtab s)\<rparr>),
                    int (length data), data))))"

text \<open>\<open>close(fd)\<close>: the descriptor is released also when the call reports
  an error (Linux).\<close>

definition sys_close :: "os_state \<Rightarrow> int \<Rightarrow> os_state \<times> int" where
  "sys_close s fd =
     (case map_of (fdtab s) fd of
        None \<Rightarrow> (called (Sys_close fd (- 1)) (s\<lparr>errno := EBADF\<rparr>), - 1)
      | Some entry \<Rightarrow>
          (case close_error s fd of
             Some e \<Rightarrow>
               (called (Sys_close fd (- 1))
                  (s\<lparr>errno := e, fdtab := AList.delete fd (fdtab s)\<rparr>), - 1)
           | None \<Rightarrow>
               (called (Sys_close fd 0)
                  (s\<lparr>fdtab := AList.delete fd (fdtab s)\<rparr>), 0)))"

subsection \<open>\<open>strtol\<close>\<close>

definition isspace :: "char \<Rightarrow> bool" where
  "isspace c = (c \<in> set [CHR '' '', CHR 0x09, CHR 0x0A, CHR 0x0B, CHR 0x0C, CHR 0x0D])"

definition isdigit :: "char \<Rightarrow> bool" where
  "isdigit c = (48 \<le> (of_char c :: nat) \<and> (of_char c :: nat) \<le> 57)"

definition digit_val :: "char \<Rightarrow> int" where
  "digit_val c = int (of_char c) - 48"

definition digits_value :: "string \<Rightarrow> int" where
  "digits_value ds = foldl (\<lambda>acc c. acc * 10 + digit_val c) 0 ds"

text \<open>The C string held by a buffer: the bytes before the first NUL.\<close>

definition cstring :: "string \<Rightarrow> string" where
  "cstring buf = takeWhile (\<lambda>c. c \<noteq> NUL) buf"

text \<open>\<open>strtol(nptr, &endptr, 10)\<close>: white space, an optional sign, decimal
  digits. The result is the value, and the number of bytes consumed
  (\<open>endptr - nptr\<close>). Without a digit nothing is converted: the value is 0 and
  \<open>endptr = nptr\<close>. A value outside \<open>long\<close> is clamped, and \<open>errno\<close> becomes
  \<open>ERANGE\<close>. A successful call does not touch \<open>errno\<close>.\<close>

definition strtol :: "os_state \<Rightarrow> string \<Rightarrow> os_state \<times> int \<times> nat" where
  "strtol s nptr =
     (let str = cstring nptr;
          spaces = takeWhile isspace str;
          rest = dropWhile isspace str;
          negative = (rest \<noteq> [] \<and> hd rest = CHR ''-'');
          signed = (rest \<noteq> [] \<and> (hd rest = CHR ''-'' \<or> hd rest = CHR ''+''));
          body = (if signed then tl rest else rest);
          ds = takeWhile isdigit body;
          v = (if negative then - digits_value ds else digits_value ds)
      in if ds = [] then ((if noconv_einval s then s\<lparr>errno := EINVAL\<rparr> else s), 0, 0)
         else if LONG_MAX < v then (s\<lparr>errno := ERANGE\<rparr>, LONG_MAX,
                 length spaces + (if signed then 1 else 0) + length ds)
         else if v < LONG_MIN then (s\<lparr>errno := ERANGE\<rparr>, LONG_MIN,
                 length spaces + (if signed then 1 else 0) + length ds)
         else (s, v, length spaces + (if signed then 1 else 0) + length ds))"

section \<open>\<open>network_stats.cpp\<close>\<close>

abbreviation (input) READ_SIZE :: nat where "READ_SIZE \<equiv> 32"

definition SYSFS_PATH :: string where "SYSFS_PATH = ''/sys/class/net/''"
definition STATS_DIR :: string where "STATS_DIR = ''/statistics/''"

text \<open>What the stack holds where \<open>rbuf\<close> is allocated is not known; the model
  fills the buffer with this byte. Nothing reads it: \<open>strtol\<close> stops at the
  terminator that \<open>update_one\<close> writes behind the bytes read.\<close>

definition stack_garbage :: char where
  "stack_garbage = CHR 0xAA"

text \<open>Lines 222-233 of \<open>update_one\<close>: rewind, read, and the two checks on the
  number of bytes read. On success the result is \<open>r_ret\<close> and \<open>rbuf\<close>.\<close>

definition update_one_read :: "os_state \<Rightarrow> int \<Rightarrow> os_state \<times> (exn + int \<times> string)" where
  "update_one_read s fd =
     (case sys_lseek s fd 0 of (s1, ret) \<Rightarrow>
        if ret = - 1 then throw s1 (ERROR (Lseek_failed fd) (errno s1))
        else (case sys_read s1 fd READ_SIZE of (s2, r_ret, data) \<Rightarrow>
          let rbuf = data @ replicate (READ_SIZE - length data) stack_garbage
          in if r_ret = int READ_SIZE then throw s2 (RUNTIME (Read_full r_ret fd))
             else if r_ret \<le> 0 then throw s2 (ERROR (Read_nothing r_ret fd) (errno s2))
             else (s2, Inr (r_ret, rbuf))))"

text \<open>\<open>update_one\<close>: the terminator is written at index \<open>r_ret\<close>; the text is
  converted; the only test after the conversion is the one on \<open>errno\<close>
  (\<open>endptr\<close> is never looked at, and \<open>errno\<close> is not cleared before the
  call). The result is \<open>(uint64_t)value\<close>.\<close>

definition update_one :: "os_state \<Rightarrow> int \<Rightarrow> os_state \<times> (exn + 64 word)" where
  "update_one s fd =
     (case update_one_read s fd of
        (s2, Inl e) \<Rightarrow> (s2, Inl e)
      | (s2, Inr (r_ret, rbuf)) \<Rightarrow>
          (let rbuf' = rbuf[nat r_ret := NUL]
           in case strtol s2 rbuf' of (s3, v, endptr) \<Rightarrow>
                if errno s3 \<noteq> 0 \<and> errno s3 \<noteq> EINTR
                then throw s3 (ERROR (Unable_to_convert (cstring rbuf') fd) (errno s3))
                else (s3, Inr (word_of_int v))))"

subsection \<open>Names and file names\<close>

fun rx_name :: "rx_fields \<Rightarrow> string" where
  "rx_name RX_BYTES = ''RX_BYTES''"
| "rx_name RX_COMPRESSED = ''RX_COMPRESSED''"
| "rx_name RX_CRC_ERRORS = ''RX_CRC_ERRORS''"
| "rx_name RX_DROPPED = ''RX_DROPPED''"
| "rx_name RX_ERRORS = ''RX_ERRORS''"
| "rx_name RX_FIFO_ERRORS = ''RX_FIFO_ERRORS''"
| "rx_name RX_FRAME_ERRORS = ''RX_FRAME_ERRORS''"
| "rx_name RX_LENGTH_ERRORS = ''RX_LENGTH_ERRORS''"
| "rx_name RX_MISSED_ERRORS = ''RX_MISSED_ERRORS''"
| "rx_name RX_OVER_ERRORS = ''RX_OVER_ERRORS''"
| "rx_name RX_PACKETS = ''RX_PACKETS''"

fun tx_name :: "tx_fields \<Rightarrow> string" where
  "tx_name TX_ABORTED_ERRORS = ''TX_ABORTED_ERRORS''"
| "tx_name TX_BYTES = ''TX_BYTES''"
| "tx_name TX_CARRIER_ERRORS = ''TX_CARRIER_ERRORS''"
| "tx_name TX_COMPRESSED = ''TX_COMPRESSED''"
| "tx_name TX_DROPPED = ''TX_DROPPED''"
| "tx_name TX_ERRORS = ''TX_ERRORS''"
| "tx_name TX_FIFO_ERRORS = ''TX_FIFO_ERRORS''"
| "tx_name TX_HEARTBEAT_ERRORS = ''TX_HEARTBEAT_ERRORS''"
| "tx_name TX_PACKETS = ''TX_PACKETS''"
| "tx_name TX_WINDOW_ERRORS = ''TX_WINDOW_ERRORS''"

text \<open>The static maps as \<open>build_fields_to_filename_maps\<close> fills them. The first
  constructor call fills them, so they are complete whenever an object
  exists.\<close>

fun rx_fields_to_filename :: "rx_fields \<Rightarrow> string" where
  "rx_fields_to_filename RX_BYTES = ''rx_bytes''"
| "rx_fields_to_filename RX_COMPRESSED = ''rx_compressed''"
| "rx_fields_to_filename RX_CRC_ERRORS = ''rx_crc_errors''"
| "rx_fields_to_filename RX_DROPPED = ''rx_dropped''"
| "rx_fields_to_filename RX_ERRORS = ''rx_errors''"
| "rx_fields_to_filename RX_FIFO_ERRORS = ''rx_fifo_errors''"
| "rx_fields_to_filename RX_FRAME_ERRORS = ''rx_frame_errors''"
| "rx_fields_to_filename RX_LENGTH_ERRORS = ''rx_length_errors''"
| "rx_fields_to_filename RX_MISSED_ERRORS = ''rx_missed_errors''"
| "rx_fields_to_filename RX_OVER_ERRORS = ''rx_over_errors''"
| "rx_fields_to_filename RX_PACKETS = ''rx_packets''"

fun tx_fields_to_filename :: "tx_fields \<Rightarrow> string" where
  "tx_fields_to_filename TX_ABORTED_ERRORS = ''tx_aborted_errors''"
| "tx_fields_to_filename TX_BYTES = ''tx_bytes''"
| "tx_fields_to_filename TX_CARRIER_ERRORS = ''tx_carrier_errors''"
| "tx_fields_to_filename TX_COMPRESSED = ''tx_compressed''"
| "tx_fields_to_filename TX_DROPPED = ''tx_dropped''"
| "tx_fields_to_filename TX_ERRORS = ''tx_errors''"
| "tx_fields_to_filename TX_FIFO_ERRORS = ''tx_fifo_errors''"
| "tx_fields_to_filename TX_HEARTBEAT_ERRORS = ''tx_heartbeat_errors''"
| "tx_fields_to_filename TX_PACKETS = ''tx_packets''"
| "tx_fields_to_filename TX_WINDOW_ERRORS = ''tx_window_errors''"

subsection \<open>Constructor and destructor\<close>

definition build_fields_to_filename_maps :: "os_state \<Rightarrow> os_state" where
  "build_fields_to_filename_maps s = (print Building_map s)\<lparr>maps_built := True\<rparr>"

text \<open>The constructor returns the object, or throws and leaves none.\<close>

definition construct :: "os_state \<Rightarrow> string \<Rightarrow> os_state \<times> (exn + network_stats)" where
  "construct s interface =
     (let s0 = (if \<not> maps_built s then build_fields_to_filename_maps s else s);
          interface_path = SYSFS_PATH @ interface
      in case sys_opendir s0 interface_path of (s1, dir) \<Rightarrow>
           if \<not> dir
           then throw s1 (ERROR (Cannot_find_path interface_path interface) (errno s1))
           else (case sys_closedir s1 interface_path of (s2, ret) \<Rightarrow>
             if ret \<noteq> 0
             then throw s2 (ERROR (Closing_dir interface_path interface) (errno s2))
             else (print (Got_stats_path (interface_path @ STATS_DIR)) s2,
                   Inr \<lparr>interface_name = interface,
                        interface_stats_path = interface_path @ STATS_DIR,
                        rx_to_update = Map.empty,
                        tx_to_update = Map.empty\<rparr>)))"

text \<open>The entries of the two maps in iteration order.\<close>

definition rx_entries :: "network_stats \<Rightarrow> netdata list" where
  "rx_entries m = List.map_filter (rx_to_update m) all_rx_fields"

definition tx_entries :: "network_stats \<Rightarrow> netdata list" where
  "tx_entries m = List.map_filter (tx_to_update m) all_tx_fields"

text \<open>A loop of the destructor: \<open>close\<close> on each entry; what \<open>close\<close> returns is
  dropped.\<close>

fun close_each :: "os_state \<Rightarrow> netdata list \<Rightarrow> os_state" where
  "close_each s [] = s"
| "close_each s (nd # nds) = close_each (fst (sys_close s (nd_fd nd))) nds"

definition destroy :: "os_state \<Rightarrow> network_stats \<Rightarrow> os_state" where
  "destroy s m =
     (let s0 = print Shutting_down s;
          s1 = close_each s0 (rx_entries m)
      in close_each s1 (tx_entries m))"

subsection \<open>Private member functions\<close>

definition fetch_one_rx :: "network_stats \<Rightarrow> rx_fields \<Rightarrow> 64 word" where
  "fetch_one_rx m r = (case rx_to_update m r of None \<Rightarrow> 0 | Some nd \<Rightarrow> nd_value nd)"

definition fetch_one_tx :: "network_stats \<Rightarrow> tx_fields \<Rightarrow> 64 word" where
  "fetch_one_tx m t = (case tx_to_update m t of None \<Rightarrow> 0 | Some nd \<Rightarrow> nd_value nd)"

subsection \<open>Public member functions\<close>

text \<open>The loop of \<open>set_rx_stats_to_update\<close> over the elements of \<open>to_update\<close>
  that are still to come. The result is the state, the object, and the
  exception if one was thrown.\<close>

fun set_rx_loop ::
  "os_state \<Rightarrow> network_stats \<Rightarrow> rx_fields list \<Rightarrow> os_state \<times> network_stats \<times> exn option" where
  "set_rx_loop s m [] = (s, m, None)"
| "set_rx_loop s m (i # rest) =
     (if rx_to_update m i \<noteq> None
      then set_rx_loop (print (Already_monitoring (rx_name i)) s) m rest
      else
        (let statfile_path = interface_stats_path m @ rx_fields_to_filename i;
             s1 = print (Opening (rx_name i) statfile_path) s
         in case sys_open s1 statfile_path of (s2, fd) \<Rightarrow>
              if fd = - 1
              then throw_from s2 m
                     (ERROR (Opening_stats_file (rx_name i) statfile_path) (errno s2))
              else set_rx_loop (print (Got_fd (rx_name i) fd) s2)
                     (m\<lparr>rx_to_update := (rx_to_update m)(i \<mapsto> netdata_of_fd fd)\<rparr>) rest))"

definition set_rx_stats_to_update ::
  "os_state \<Rightarrow> network_stats \<Rightarrow> rx_fields set \<Rightarrow> os_state \<times> network_stats \<times> exn option" where
  "set_rx_stats_to_update s m to_update =
     set_rx_loop s m (filter (\<lambda>i. i \<in> to_update) all_rx_fields)"

fun set_tx_loop ::
  "os_state \<Rightarrow> network_stats \<Rightarrow> tx_fields list \<Rightarrow> os_state \<times> network_stats \<times> exn option" where
  "set_tx_loop s m [] = (s, m, None)"
| "set_tx_loop s m (i # rest) =
     (if tx_to_update m i \<noteq> None
      then set_tx_loop (print (Already_monitoring (tx_name i)) s) m rest
      else
        (let statfile_path = interface_stats_path m @ tx_fields_to_filename i;
             s1 = print (Opening (tx_name i) statfile_path) s
         in case sys_open s1 statfile_path of (s2, fd) \<Rightarrow>
              if fd = - 1
              then throw_from s2 m
                     (ERROR (Opening_stats_file (tx_name i) statfile_path) (errno s2))
              else set_tx_loop (print (Got_fd (tx_name i) fd) s2)
                     (m\<lparr>tx_to_update := (tx_to_update m)(i \<mapsto> netdata_of_fd fd)\<rparr>) rest))"

definition set_tx_stats_to_update ::
  "os_state \<Rightarrow> network_stats \<Rightarrow> tx_fields set \<Rightarrow> os_state \<times> network_stats \<times> exn option" where
  "set_tx_stats_to_update s m to_update =
     set_tx_loop s m (filter (\<lambda>i. i \<in> to_update) all_tx_fields)"

text \<open>The loop of \<open>update_receive_data\<close> over the keys still to come; a key
  without an entry is not part of the iteration. The assignment
  \<open>i->second.value = update_one(i->second.fd)\<close> happens only when
  \<open>update_one\<close> returns.\<close>

fun update_rx_loop ::
  "os_state \<Rightarrow> network_stats \<Rightarrow> rx_fields list \<Rightarrow> os_state \<times> network_stats \<times> exn option" where
  "update_rx_loop s m [] = (s, m, None)"
| "update_rx_loop s m (i # rest) =
     (case rx_to_update m i of
        None \<Rightarrow> update_rx_loop s m rest
      | Some nd \<Rightarrow>
          (case update_one s (nd_fd nd) of
             (s1, Inl e) \<Rightarrow> (s1, m, Some e)
           | (s1, Inr v) \<Rightarrow>
               update_rx_loop s1
                 (m\<lparr>rx_to_update := (rx_to_update m)(i \<mapsto> nd\<lparr>nd_value := v\<rparr>)\<rparr>) rest))"

definition update_receive_data ::
  "os_state \<Rightarrow> network_stats \<Rightarrow> os_state \<times> network_stats \<times> exn option" where
  "update_receive_data s m = update_rx_loop s m all_rx_fields"

fun update_tx_loop ::
  "os_state \<Rightarrow> network_stats \<Rightarrow> tx_fields list \<Rightarrow> os_state \<times> network_stats \<times> exn option" where
  "update_tx_loop s m [] = (s, m, None)"
| "update_tx_loop s m (i # rest) =
     (case tx_to_update m i of
        None \<Rightarrow> update_tx_loop s m rest
      | Some nd \<Rightarrow>
          (case update_one s (nd_fd nd) of
             (s1, Inl e) \<Rightarrow> (s1, m, Some e)
           | (s1, Inr v) \<Rightarrow>
               update_tx_loop s1
                 (m\<lparr>tx_to_update := (tx_to_update m)(i \<mapsto> nd\<lparr>nd_value := v\<rparr>)\<rparr>) rest))"

definition update_transmit_data ::
  "os_state \<Rightarrow> network_stats \<Rightarrow> os_state \<times> network_stats \<times> exn option" where
  "update_transmit_data s m = update_tx_loop s m all_tx_fields"

definition update_all ::
  "os_state \<Rightarrow> network_stats \<Rightarrow> os_state \<times> network_stats \<times> exn option" where
  "update_all s m =
     (case update_receive_data s m of
        (s1, m1, Some e) \<Rightarrow> (s1, m1, Some e)
      | (s1, m1, None) \<Rightarrow> update_transmit_data s1 m1)"

definition get_receive_data :: "network_stats \<Rightarrow> receive_data" where
  "get_receive_data m =
     \<lparr>bytes = fetch_one_rx m RX_BYTES,
      compressed = fetch_one_rx m RX_COMPRESSED,
      CRC_errors = fetch_one_rx m RX_CRC_ERRORS,
      dropped = fetch_one_rx m RX_DROPPED,
      errors = fetch_one_rx m RX_ERRORS,
      FIFO_errors = fetch_one_rx m RX_FIFO_ERRORS,
      frame_errors = fetch_one_rx m RX_FRAME_ERRORS,
      length_errors = fetch_one_rx m RX_LENGTH_ERRORS,
      missed_errors = fetch_one_rx m RX_MISSED_ERRORS,
      over_errors = fetch_one_rx m RX_OVER_ERRORS,
      packets = fetch_one_rx m RX_PACKETS\<rparr>"

definition get_transmit_data :: "network_stats \<Rightarrow> transmit_data" where
  "get_transmit_data m =
     \<lparr>tx_aborted_errors = fetch_one_tx m TX_ABORTED_ERRORS,
      tx_bytes = fetch_one_tx m TX_BYTES,
      tx_carrier_errors = fetch_one_tx m TX_CARRIER_ERRORS,
      tx_compressed = fetch_one_tx m TX_COMPRESSED,
      tx_dropped = fetch_one_tx m TX_DROPPED,
      tx_errors = fetch_one_tx m TX_ERRORS,
      tx_FIFO_errors = fetch_one_tx m TX_FIFO_ERRORS,
      tx_heartbeat_errors = fetch_one_tx m TX_HEARTBEAT_ERRORS,
      tx_packets = fetch_one_tx m TX_PACKETS,
      tx_window_errors = fetch_one_tx m TX_WINDOW_ERRORS\<rparr>"

definition get_rx_bytes :: "network_stats \<Rightarrow> 64 word" where
  "get_rx_bytes m = fetch_one_rx m RX_BYTES"

definition get_rx_packets :: "network_stats \<Rightarrow> 64 word" where
  "get_rx_packets m = fetch_one_rx m RX_PACKETS"

definition get_tx_bytes :: "network_stats \<Rightarrow> 64 word" where
  "get_tx_bytes m = fetch_one_tx m TX_BYTES"

definition get_tx_packets :: "network_stats \<Rightarrow> 64 word" where
  "get_tx_packets m = fetch_one_tx m TX_PACKETS"

text \<open>The member of a snapshot that a counter kind is stored in
  (the assignments of \<open>get_receive_data\<close> and \<open>get_transmit_data\<close>).\<close>

fun rx_member :: "rx_fields \<Rightarrow> receive_data \<Rightarrow> 64 word" where
  "rx_member RX_BYTES = bytes"
| "rx_member RX_COMPRESSED = compressed"
| "rx_member RX_CRC_ERRORS = CRC_errors"
| "rx_member RX_DROPPED = dropped"
| "rx_member RX_ERRORS = errors"
| "rx_member RX_FIFO_ERRORS = FIFO_errors"
| "rx_member RX_FRAME_ERRORS = frame_errors"
| "rx_member RX_LENGTH_ERRORS = length_errors"
| "rx_member RX_MISSED_ERRORS = missed_errors"
| "rx_member RX_OVER_ERRORS = over_errors"
| "rx_member RX_PACKETS = packets"

fun tx_member :: "tx_fields \<Rightarrow> transmit_data \<Rightarrow> 64 word" where
  "tx_member TX_ABORTED_ERRORS = tx_aborted_errors"
| "tx_member TX_BYTES = tx_bytes"
| "tx_member TX_CARRIER_ERRORS = tx_carrier_errors"
| "tx_member TX_COMPRESSED = tx_compressed"
| "tx_member TX_DROPPED = tx_dropped"
| "tx_member TX_ERRORS = tx_errors"
| "tx_member TX_FIFO_ERRORS = tx_FIFO_errors"
| "tx_member TX_HEARTBEAT_ERRORS = tx_heartbeat_errors"
| "tx_member TX_PACKETS = tx_packets"
| "tx_member TX_WINDOW_ERRORS = tx_window_errors"

section \<open>Notions used to state the properties\<close>

text \<open>The path a descriptor is open on, and the text it reads after a rewind
  (if it is open on a text resource).\<close>

definition fd_path :: "os_state \<Rightarrow> int \<Rightarrow> string option" where
  "fd_path s fd = map_option fst (map_of (fdtab s) fd)"

definition fd_text :: "os_state \<Rightarrow> int \<Rightarrow> string option" where
  "fd_text s fd =
     (case fd_path s fd of
        None \<Rightarrow> None
      | Some p \<Rightarrow> (case resources s p of Some (Text c) \<Rightarrow> Some c | _ \<Rightarrow> None))"

text \<open>A counter that \<open>update_one\<close> can read: its descriptor is open on a text
  of 1 to 31 bytes on which \<open>strtol\<close> leaves \<open>errno\<close> alone.\<close>

definition readable :: "os_state \<Rightarrow> netdata \<Rightarrow> bool" where
  "readable s nd =
     (case fd_text s (nd_fd nd) of
        None \<Rightarrow> False
      | Some c \<Rightarrow> 0 < length c \<and> length c < READ_SIZE \<and> errno (fst (strtol s c)) = errno s)"

text \<open>A counter kind of either direction, what the object tracks for it, and
  the member of the snapshot that reports it. \<open>all_counters\<close> is the order in
  which \<open>update_all\<close> visits them.\<close>

datatype counter = Rx rx_fields | Tx tx_fields

fun tracked :: "network_stats \<Rightarrow> counter \<Rightarrow> netdata option" where
  "tracked m (Rx r) = rx_to_update m r"
| "tracked m (Tx t) = tx_to_update m t"

fun snapshot :: "network_stats \<Rightarrow> counter \<Rightarrow> 64 word" where
  "snapshot m (Rx r) = rx_member r (get_receive_data m)"
| "snapshot m (Tx t) = tx_member t (get_transmit_data m)"

definition all_counters :: "counter list" where
  "all_counters = map Rx all_rx_fields @ map Tx all_tx_fields"

definition all_readable :: "os_state \<Rightarrow> network_stats \<Rightarrow> bool" where
  "all_readable s m =
     list_all (\<lambda>c. case tracked m c of None \<Rightarrow> True | Some nd \<Rightarrow> readable s nd) all_counters"

text \<open>The decimal representation of a natural number.\<close>

definition digit_char :: "nat \<Rightarrow> char" where
  "digit_char k = ''0123456789'' ! k"

fun decimal :: "nat \<Rightarrow> string" where
  "decimal n = (if n < 10 then [digit_char n]
                else decimal (n div 10) @ [digit_char (n mod 10)])"

declare decimal.simps [simp del]

text \<open>Two states of the process that differ at most in \<open>errno\<close>, in the
  offsets of the open descriptors, and in what was logged and printed.\<close>

definition same_world :: "os_state \<Rightarrow> os_state \<Rightarrow> bool" where
  "same_world s s' =
     (resources s' = resources s \<and> noconv_einval s' = noconv_einval s
      \<and> close_error s' = close_error s \<and> maps_built s' = maps_built s
      \<and> fd_path s' = fd_path s \<and> map fst (fdtab s') = map fst (fdtab s))"

text \<open>Two states of the object that track the same counters through the
  same descriptors.\<close>

definition same_handles :: "network_stats \<Rightarrow> network_stats \<Rightarrow> bool" where
  "same_handles m m' =
     (interface_name m' = interface_name m
      \<and> interface_stats_path m' = interface_stats_path m
      \<and> (\<forall>c. map_option nd_fd (tracked m' c) = map_option nd_fd (tracked m c)))"

subsection \<open>A process and its objects, for concrete runs\<close>

text \<open>A process at its start: \<open>errno\<close> is 0, the three standard descriptors
  are open, interface \<open>eth0\<close> exists, and seven of its statistics are
  there, some of them unusual.\<close>

definition boot :: os_state where
  "boot =
     \<lparr>errno = 0,
      resources =
        [''/sys/class/net/eth0'' \<mapsto> Directory,
         ''/sys/class/net/eth0/statistics/rx_bytes'' \<mapsto> Text ''12345\<newline>'',
         ''/sys/class/net/eth0/statistics/rx_packets'' \<mapsto> Text ''abc'',
         ''/sys/class/net/eth0/statistics/rx_dropped'' \<mapsto> Text (replicate 32 CHR ''7''),
         ''/sys/class/net/eth0/statistics/rx_errors'' \<mapsto> Failing 5,
         ''/sys/class/net/eth0/statistics/tx_bytes'' \<mapsto> Text ''-5\<newline>'',
         ''/sys/class/net/eth0/statistics/tx_packets'' \<mapsto> Text ''9223372036854775808\<newline>''],
      fdtab = [(0, ''/dev/tty'', 0), (1, ''/dev/tty'', 0), (2, ''/dev/tty'', 0)],
      close_error = Map.empty,
      noconv_einval = False,
      maps_built = False,
      calls = [],
      stdout = []\<rparr>"

text \<open>The process and the object after the constructor for \<open>eth0\<close> and one
  call of each of \<open>set_rx_stats_to_update\<close> and \<open>set_tx_stats_to_update\<close>.\<close>

definition monitor_of :: "rx_fields set \<Rightarrow> tx_fields set \<Rightarrow> os_state \<times> network_stats" where
  "monitor_of rx tx =
     (case construct boot ''eth0'' of
        (s, Inr m) \<Rightarrow>
          (case set_rx_stats_to_update s m rx of (s1, m1, x1) \<Rightarrow>
             (case set_tx_stats_to_update s1 m1 tx of (s2, m2, x2) \<Rightarrow> (s2, m2))))"

text \<open>The two loops of \<open>update_all\<close> as one loop over counters of either
  direction (\<open>update_all_counters\<close> below shows that this is what
  \<open>update_all\<close> does); \<open>store\<close> is the assignment to the entry of a map.\<close>

fun store :: "network_stats \<Rightarrow> counter \<Rightarrow> netdata \<Rightarrow> network_stats" where
  "store m (Rx r) nd = m\<lparr>rx_to_update := (rx_to_update m)(r \<mapsto> nd)\<rparr>"
| "store m (Tx t) nd = m\<lparr>tx_to_update := (tx_to_update m)(t \<mapsto> nd)\<rparr>"

fun update_counters ::
  "os_state \<Rightarrow> network_stats \<Rightarrow> counter list \<Rightarrow> os_state \<times> network_stats \<times> exn option" where
  "update_counters s m [] = (s, m, None)"
| "update_counters s m (c # cs) =
     (case tracked m c of
        None \<Rightarrow> update_counters s m cs
      | Some nd \<Rightarrow>
          (case update_one s (nd_fd nd) of
             (s1, Inl e) \<Rightarrow> (s1, m, Some e)
           | (s1, Inr v) \<Rightarrow> update_counters s1 (store m c (nd\<lparr>nd_value := v\<rparr>)) cs))"

text \<open>The two loops of \<open>set_rx_stats_to_update\<close> and \<open>set_tx_stats_to_update\<close>
  as one loop over counters of either direction (\<open>set_rx_loop_counters\<close> and
  \<open>set_tx_loop_counters\<close> below show that they are instances of it).\<close>

fun counter_name :: "counter \<Rightarrow> string" where
  "counter_name (Rx r) = rx_name r"
| "counter_name (Tx t) = tx_name t"

fun counter_filename :: "counter \<Rightarrow> string" where
  "counter_filename (Rx r) = rx_fields_to_filename r"
| "counter_filename (Tx t) = tx_fields_to_filename t"

definition counter_path :: "network_stats \<Rightarrow> counter \<Rightarrow> string" where
  "counter_path m c = interface_stats_path m @ counter_filename c"

fun subscribe_counters ::
  "os_state \<Rightarrow> network_stats \<Rightarrow> counter list \<Rightarrow> os_state \<times> network_stats \<times> exn option" where
  "subscribe_counters s m [] = (s, m, None)"
| "subscribe_counters s m (c # rest) =
     (if tracked m c \<noteq> None
      then subscribe_counters (print (Already_monitoring (counter_name c)) s) m rest
      else
        (let statfile_path = counter_path m c;
             s1 = print (Opening (counter_name c) statfile_path) s
         in case sys_open s1 statfile_path of (s2, fd) \<Rightarrow>
              if fd = - 1
              then throw_from s2 m
                     (ERROR (Opening_stats_file (counter_name c) statfile_path) (errno s2))
              else subscribe_counters (print (Got_fd (counter_name c) fd) s2)
                     (store m c (netdata_of_fd fd)) rest))"

text \<open>The successful \<open>open\<close> calls of a log: path and descriptor.\<close>

fun all_opens :: "syscall list \<Rightarrow> (string \<times> int) list" where
  "all_opens [] = []"
| "all_opens (Sys_open p fd # cs) = (if fd = - 1 then all_opens cs else (p, fd) # all_opens cs)"
| "all_opens (c # cs) = all_opens cs"

text \<open>All entries of the object, in the order in which the destructor visits
  them.\<close>

definition entries :: "network_stats \<Rightarrow> netdata list" where
  "entries m = rx_entries m @ tx_entries m"

text \<open>A client of the object: it calls the public member functions in any
  order and catches what they throw; in between, the environment may change
  what a path names, other code of the process may leave a value in \<open>errno\<close>,
  and a descriptor may get into a state in which its \<open>close\<close> will fail.\<close>

datatype client_op =
    Set_rx "rx_fields set"
  | Set_tx "tx_fields set"
  | Update_all
  | Update_receive
  | Update_transmit
  | Env_resource string "resource option"
  | Env_errno int
  | Env_close_error int "int option"

fun client_step :: "os_state \<times> network_stats \<Rightarrow> client_op \<Rightarrow> os_state \<times> network_stats" where
  "client_step (s, m) (Set_rx to_update) =
     (case set_rx_stats_to_update s m to_update of (s', m', x) \<Rightarrow> (s', m'))"
| "client_step (s, m) (Set_tx to_update) =
     (case set_tx_stats_to_update s m to_update of (s', m', x) \<Rightarrow> (s', m'))"
| "client_step (s, m) Update_all = (case update_all s m of (s', m', x) \<Rightarrow> (s', m'))"
| "client_step (s, m) Update_receive =
     (case update_receive_data s m of (s', m', x) \<Rightarrow> (s', m'))"
| "client_step (s, m) Update_transmit =
     (case update_transmit_data s m of (s', m', x) \<Rightarrow> (s', m'))"
| "client_step (s, m) (Env_resource p r) = (s\<lparr>resources := (resources s)(p := r)\<rparr>, m)"
| "client_step (s, m) (Env_errno e) = (s\<lparr>errno := e\<rparr>, m)"
| "client_step (s, m) (Env_close_error fd e) =
     (s\<lparr>close_error := (close_error s)(fd := e)\<rparr>, m)"

definition client_run ::
  "os_state \<times> network_stats \<Rightarrow> client_op list \<Rightarrow> os_state \<times> network_stats" where
  "client_run = foldl client_step"

text \<open>The counters a client has asked for.\<close>

fun requested :: "client_op list \<Rightarrow> counter set" where
  "requested [] = {}"
| "requested (Set_rx to_update # ops) = Rx ` to_update \<union> requested ops"
| "requested (Set_tx to_update # ops) = Tx ` to_update \<union> requested ops"
| "requested (op # ops) = requested ops"

text \<open>What holds of the process and the object during the life of the
  object, where \<open>before\<close> is the log at the end of the constructor: the
  successful \<open>open\<close> calls since then are one per tracked counter, on the path
  of that counter, and gave the descriptor the entry holds; these descriptors
  differ from each other and are open.\<close>

definition lifetime_inv :: "syscall list \<Rightarrow> os_state \<Rightarrow> network_stats \<Rightarrow> bool" where
  "lifetime_inv before s m =
     (\<exists>opens. all_opens (calls s) = all_opens before @ opens
        \<and> distinct (map fst opens) \<and> distinct (map snd opens)
        \<and> set opens = {(counter_path m c, nd_fd nd) | c nd. tracked m c = Some nd}
        \<and> snd ` set opens \<subseteq> fst ` set (fdtab s))"

text \<open>The counters that \<open>update_all\<close> visits before it comes to \<open>c\<close>, and
  those it visits from \<open>c\<close> on. A call of \<open>update_all\<close> in state \<open>s\<close> arrives
  at \<open>c\<close> when \<open>update_one\<close> returns without an exception for every tracked
  counter visited before \<open>c\<close> (\<open>update_one_outcome_cong\<close> below: the earlier
  updates do not change what \<open>update_one\<close> returns or throws for a later
  counter).\<close>

definition visited_before :: "counter \<Rightarrow> counter list" where
  "visited_before c = takeWhile (\<lambda>x. x \<noteq> c) all_counters"

definition visited_from :: "counter \<Rightarrow> counter list" where
  "visited_from c = dropWhile (\<lambda>x. x \<noteq> c) all_counters"

definition arrives_at :: "os_state \<Rightarrow> network_stats \<Rightarrow> counter \<Rightarrow> bool" where
  "arrives_at s m c =
     list_all (\<lambda>d. case tracked m d of
                      None \<Rightarrow> True
                    | Some nd \<Rightarrow> \<not> isl (snd (update_one s (nd_fd nd))))
       (visited_before c)"

section \<open>Properties\<close>

subsection \<open>System calls and \<open>strtol\<close>\<close>

lemma print_fields [simp]:
  "errno (print x s) = errno s" "resources (print x s) = resources s"
  "fdtab (print x s) = fdtab s" "close_error (print x s) = close_error s"
  "noconv_einval (print x s) = noconv_einval s" "maps_built (print x s) = maps_built s"
  "calls (print x s) = calls s" "stdout (print x s) = stdout s @ [x]"
  by (simp_all add: print_def)

lemma called_fields [simp]:
  "errno (called c s) = errno s" "resources (called c s) = resources s"
  "fdtab (called c s) = fdtab s" "close_error (called c s) = close_error s"
  "noconv_einval (called c s) = noconv_einval s" "maps_built (called c s) = maps_built s"
  "calls (called c s) = calls s @ [c]" "stdout (called c s) = stdout s"
  by (simp_all add: called_def)

lemma fd_path_print [simp]: "fd_path (print x s) = fd_path s"
  by (rule ext) (simp add: fd_path_def)

lemma fd_path_called [simp]: "fd_path (called c s) = fd_path s"
  by (rule ext) (simp add: fd_path_def)

lemma map_of_Some_key: "map_of al k = Some v \<Longrightarrow> k \<in> fst ` set al"
  by (metis domI dom_map_of_conv_image_fst)

lemma cstring_idem: "cstring (cstring buf) = cstring buf"
  by (simp add: cstring_def)

lemma strtol_cstring: "strtol s (cstring buf) = strtol s buf"
  by (simp add: strtol_def cstring_idem)

lemma cstring_append_NUL: "cstring (data @ NUL # xs) = cstring data"
  by (induction data) (simp_all add: cstring_def)

lemma cstring_terminated:
  assumes "length data < n"
  shows "cstring ((data @ replicate (n - length data) g)[length data := NUL]) = cstring data"
proof -
  obtain k where k: "n - length data = Suc k"
    using assms by (cases "n - length data") auto
  have "(data @ replicate (n - length data) g)[length data := NUL] = data @ NUL # replicate k g"
    by (simp add: k list_update_append)
  then show ?thesis by (simp add: cstring_append_NUL)
qed

lemma strtol_state:
  "fst (strtol s buf) = s \<or> fst (strtol s buf) = s\<lparr>errno := EINVAL\<rparr>
     \<or> fst (strtol s buf) = s\<lparr>errno := ERANGE\<rparr>"
  by (simp add: strtol_def Let_def)

lemma strtol_snd: "snd (strtol s buf) = snd (strtol s' buf)"
  by (simp add: strtol_def Let_def)

lemma strtol_errno_cong:
  "noconv_einval s' = noconv_einval s \<Longrightarrow> errno s' = errno s \<Longrightarrow>
   errno (fst (strtol s' buf)) = errno (fst (strtol s buf))"
  by (simp add: strtol_def Let_def)

lemma sys_read_le:
  "sys_read s fd n = (s', r, data) \<Longrightarrow>
     r \<le> int n \<and> (0 \<le> r \<longrightarrow> r = int (length data)) \<and> (r < 0 \<longrightarrow> data = [])"
  by (auto simp: sys_read_def Let_def split: option.splits prod.splits resource.splits)

lemma sys_lseek_frame:
  assumes "sys_lseek s fd off = (s', r)"
  shows "resources s' = resources s" "noconv_einval s' = noconv_einval s"
    "close_error s' = close_error s" "maps_built s' = maps_built s" "stdout s' = stdout s"
    "fd_path s' = fd_path s" "r \<noteq> - 1 \<Longrightarrow> errno s' = errno s"
    "map fst (fdtab s') = map fst (fdtab s)"
  using assms
  by (auto simp: sys_lseek_def called_def fd_path_def update_conv' map_of_eq_None_iff
      AList.update_keys fun_upd_def
      split: option.splits prod.splits intro!: ext dest: map_of_Some_key)

lemma sys_read_frame:
  assumes "sys_read s fd n = (s', r, data)"
  shows "resources s' = resources s" "noconv_einval s' = noconv_einval s"
    "close_error s' = close_error s" "maps_built s' = maps_built s" "stdout s' = stdout s"
    "fd_path s' = fd_path s" "0 \<le> r \<Longrightarrow> errno s' = errno s"
    "map fst (fdtab s') = map fst (fdtab s)"
  using assms
  by (auto simp: sys_read_def called_def fd_path_def update_conv' map_of_eq_None_iff
      AList.update_keys fun_upd_def Let_def
      split: option.splits prod.splits resource.splits intro!: ext dest: map_of_Some_key)

subsection \<open>\<open>update_one\<close>\<close>

lemma update_one_read_cases:
  assumes "update_one_read s fd = (s', r)"
  obtains (lseek_failed) s1 where "sys_lseek s fd 0 = (s1, - 1)"
      "s' = print (Vprint (ERROR (Lseek_failed fd) (errno s1))) s1"
      "r = Inl (ERROR (Lseek_failed fd) (errno s1))"
    | (read_full) s1 ret s2 data where "sys_lseek s fd 0 = (s1, ret)" "ret \<noteq> - 1"
      "sys_read s1 fd READ_SIZE = (s2, int READ_SIZE, data)"
      "s' = print (Vprint (RUNTIME (Read_full (int READ_SIZE) fd))) s2"
      "r = Inl (RUNTIME (Read_full (int READ_SIZE) fd))"
    | (read_nothing) s1 ret s2 n data where "sys_lseek s fd 0 = (s1, ret)" "ret \<noteq> - 1"
      "sys_read s1 fd READ_SIZE = (s2, n, data)" "n \<le> 0"
      "s' = print (Vprint (ERROR (Read_nothing n fd) (errno s2))) s2"
      "r = Inl (ERROR (Read_nothing n fd) (errno s2))"
    | (read_ok) s1 ret n data where "sys_lseek s fd 0 = (s1, ret)" "ret \<noteq> - 1"
      "sys_read s1 fd READ_SIZE = (s', n, data)" "0 < n" "n < int READ_SIZE"
      "r = Inr (n, data @ replicate (READ_SIZE - length data) stack_garbage)"
proof -
  obtain s1 ret where l: "sys_lseek s fd 0 = (s1, ret)" by (cases "sys_lseek s fd 0")
  obtain s2 n data where rd: "sys_read s1 fd READ_SIZE = (s2, n, data)"
    by (cases "sys_read s1 fd READ_SIZE") auto
  have le: "n \<le> int READ_SIZE" using sys_read_le[OF rd] by simp
  show thesis
  proof (cases "ret = - 1")
    case True
    have "s' = print (Vprint (ERROR (Lseek_failed fd) (errno s1))) s1
        \<and> r = Inl (ERROR (Lseek_failed fd) (errno s1))"
      using assms l True by (simp add: update_one_read_def throw_def)
    then show ?thesis using l True by (intro lseek_failed[of s1]) simp_all
  next
    case nf: False
    show ?thesis
    proof (cases "n = int READ_SIZE")
      case True
      have "s' = print (Vprint (RUNTIME (Read_full (int READ_SIZE) fd))) s2
          \<and> r = Inl (RUNTIME (Read_full (int READ_SIZE) fd))"
        using assms l rd nf True by (simp add: update_one_read_def throw_def Let_def)
      then show ?thesis using l rd nf True by (intro read_full[of s1 ret s2 data]) simp_all
    next
      case nfull: False
      show ?thesis
      proof (cases "n \<le> 0")
        case True
        have "s' = print (Vprint (ERROR (Read_nothing n fd) (errno s2))) s2
            \<and> r = Inl (ERROR (Read_nothing n fd) (errno s2))"
          using assms l rd nf nfull True by (simp add: update_one_read_def throw_def Let_def)
        then show ?thesis using l rd nf True by (intro read_nothing[of s1 ret s2 n data]) simp_all
      next
        case False
        have "s' = s2 \<and> r = Inr (n, data @ replicate (READ_SIZE - length data) stack_garbage)"
          using assms l rd nf nfull False by (simp add: update_one_read_def throw_def Let_def)
        then show ?thesis using l rd nf nfull False le by (intro read_ok[of s1 ret n data]) simp_all
      qed
    qed
  qed
qed

lemma update_one_read_frame:
  assumes "update_one_read s fd = (s', r)"
  shows "resources s' = resources s" "noconv_einval s' = noconv_einval s"
    "close_error s' = close_error s" "maps_built s' = maps_built s"
    "fd_path s' = fd_path s" "map fst (fdtab s') = map fst (fdtab s)"
    "\<not> isl r \<Longrightarrow> errno s' = errno s \<and> stdout s' = stdout s"
proof -
  show "resources s' = resources s"
    using assms by (cases rule: update_one_read_cases)
      (simp_all add: sys_lseek_frame(1) sys_read_frame(1))
  show "noconv_einval s' = noconv_einval s"
    using assms by (cases rule: update_one_read_cases)
      (simp_all add: sys_lseek_frame(2) sys_read_frame(2))
  show "close_error s' = close_error s"
    using assms by (cases rule: update_one_read_cases)
      (simp_all add: sys_lseek_frame(3) sys_read_frame(3))
  show "maps_built s' = maps_built s"
    using assms by (cases rule: update_one_read_cases)
      (simp_all add: sys_lseek_frame(4) sys_read_frame(4))
  show "fd_path s' = fd_path s"
    using assms by (cases rule: update_one_read_cases)
      (simp_all add: sys_lseek_frame(6) sys_read_frame(6))
  show "map fst (fdtab s') = map fst (fdtab s)"
    using assms by (cases rule: update_one_read_cases)
      (simp_all add: sys_lseek_frame(8) sys_read_frame(8))
  show "\<not> isl r \<Longrightarrow> errno s' = errno s \<and> stdout s' = stdout s"
    using assms by (cases rule: update_one_read_cases)
      (simp_all add: sys_lseek_frame(5,7) sys_read_frame(5,7))
qed


lemma strtol_fields [simp]:
  "resources (fst (strtol s buf)) = resources s"
  "noconv_einval (fst (strtol s buf)) = noconv_einval s"
  "close_error (fst (strtol s buf)) = close_error s"
  "maps_built (fst (strtol s buf)) = maps_built s"
  "fdtab (fst (strtol s buf)) = fdtab s"
  "calls (fst (strtol s buf)) = calls s"
  "stdout (fst (strtol s buf)) = stdout s"
  using strtol_state[of s buf] by auto

lemma fd_path_strtol [simp]: "fd_path (fst (strtol s buf)) = fd_path s"
  by (rule ext) (simp add: fd_path_def)

lemma strtol_errno:
  "errno (fst (strtol s buf)) = errno s \<or> errno (fst (strtol s buf)) = EINVAL
     \<or> errno (fst (strtol s buf)) = ERANGE"
  using strtol_state[of s buf] by auto

lemma update_one_cases:
  assumes "update_one s fd = (s', r)"
  obtains (read_failed) e where "update_one_read s fd = (s', Inl e)" "r = Inl e"
    | (convert_failed) s2 n rbuf where "update_one_read s fd = (s2, Inr (n, rbuf))"
        "errno (fst (strtol s2 (rbuf[nat n := NUL]))) \<noteq> 0"
        "errno (fst (strtol s2 (rbuf[nat n := NUL]))) \<noteq> EINTR"
        "s' = print (Vprint (ERROR (Unable_to_convert (cstring (rbuf[nat n := NUL])) fd)
                 (errno (fst (strtol s2 (rbuf[nat n := NUL])))))) (fst (strtol s2 (rbuf[nat n := NUL])))"
        "r = Inl (ERROR (Unable_to_convert (cstring (rbuf[nat n := NUL])) fd)
                 (errno (fst (strtol s2 (rbuf[nat n := NUL])))))"
    | (converted) s2 n rbuf where "update_one_read s fd = (s2, Inr (n, rbuf))"
        "errno (fst (strtol s2 (rbuf[nat n := NUL]))) = 0
           \<or> errno (fst (strtol s2 (rbuf[nat n := NUL]))) = EINTR"
        "s' = fst (strtol s2 (rbuf[nat n := NUL]))"
        "r = Inr (word_of_int (fst (snd (strtol s2 (rbuf[nat n := NUL])))))"
proof -
  obtain s2 rr where u: "update_one_read s fd = (s2, rr)" by (cases "update_one_read s fd")
  show thesis
  proof (cases rr)
    case (Inl e)
    then have "s' = s2 \<and> r = Inl e" using assms u by (simp add: update_one_def)
    then show ?thesis using u Inl by (intro read_failed[of e]) simp_all
  next
    case (Inr nb)
    obtain n rbuf where nb: "nb = (n, rbuf)" by (cases nb)
    let ?t = "strtol s2 (rbuf[nat n := NUL])"
    show ?thesis
    proof (cases "errno (fst ?t) \<noteq> 0 \<and> errno (fst ?t) \<noteq> EINTR")
      case True
      then have "s' = print (Vprint (ERROR (Unable_to_convert (cstring (rbuf[nat n := NUL])) fd)
                 (errno (fst ?t)))) (fst ?t)
          \<and> r = Inl (ERROR (Unable_to_convert (cstring (rbuf[nat n := NUL])) fd) (errno (fst ?t)))"
        using assms u Inr nb
        by (simp add: update_one_def throw_def Let_def split: prod.splits)
      then show ?thesis using u Inr nb True by (intro convert_failed[of s2 n rbuf]) simp_all
    next
      case False
      then have "s' = fst ?t \<and> r = Inr (word_of_int (fst (snd ?t)))"
        using assms u Inr nb
        by (auto simp: update_one_def throw_def Let_def split: prod.splits)
      then show ?thesis using u Inr nb False by (intro converted[of s2 n rbuf]) auto
    qed
  qed
qed

lemma update_one_frame:
  assumes "update_one s fd = (s', r)"
  shows "resources s' = resources s" "noconv_einval s' = noconv_einval s"
    "close_error s' = close_error s" "maps_built s' = maps_built s"
    "fd_path s' = fd_path s" "map fst (fdtab s') = map fst (fdtab s)"
proof -
  show "resources s' = resources s"
    using assms by (cases rule: update_one_cases) (simp_all add: update_one_read_frame(1))
  show "noconv_einval s' = noconv_einval s"
    using assms by (cases rule: update_one_cases) (simp_all add: update_one_read_frame(2))
  show "close_error s' = close_error s"
    using assms by (cases rule: update_one_cases) (simp_all add: update_one_read_frame(3))
  show "maps_built s' = maps_built s"
    using assms by (cases rule: update_one_cases) (simp_all add: update_one_read_frame(4))
  show "fd_path s' = fd_path s"
    using assms by (cases rule: update_one_cases) (simp_all add: update_one_read_frame(5))
  show "map fst (fdtab s') = map fst (fdtab s)"
    using assms by (cases rule: update_one_cases) (simp_all add: update_one_read_frame(6))
qed

lemma update_one_returns:
  assumes "update_one s fd = (s', Inr v)"
  shows "errno s' = errno s" "errno s = 0 \<or> errno s = EINTR" "stdout s' = stdout s"
proof -
  from assms obtain s2 n rbuf where u: "update_one_read s fd = (s2, Inr (n, rbuf))"
    and e: "errno (fst (strtol s2 (rbuf[nat n := NUL]))) = 0
           \<or> errno (fst (strtol s2 (rbuf[nat n := NUL]))) = EINTR"
    and s': "s' = fst (strtol s2 (rbuf[nat n := NUL]))"
    by (cases rule: update_one_cases) auto
  have s2: "errno s2 = errno s" "stdout s2 = stdout s"
    using update_one_read_frame(7)[OF u] by simp_all
  have keep: "errno s' = errno s2"
    using strtol_errno[of s2 "rbuf[nat n := NUL]"] e s' by auto
  show "errno s' = errno s" using keep s2 by simp
  show "errno s = 0 \<or> errno s = EINTR" using keep s2 e s' by simp
  show "stdout s' = stdout s" using s' s2 by simp
qed

lemma fd_textD:
  "fd_text s fd = Some c \<Longrightarrow>
     \<exists>p off. map_of (fdtab s) fd = Some (p, off) \<and> resources s p = Some (Text c)"
  by (auto simp: fd_text_def fd_path_def split: option.splits resource.splits)

lemma update_one_read_text:
  assumes "fd_text s fd = Some c" "0 < length c" "length c < READ_SIZE"
  shows "\<exists>s2. update_one_read s fd =
           (s2, Inr (int (length c), c @ replicate (READ_SIZE - length c) stack_garbage))
         \<and> calls s2 = calls s @ [Sys_lseek fd 0, Sys_read fd (int (length c))]"
proof -
  from fd_textD[OF assms(1)] obtain p off where
    m: "map_of (fdtab s) fd = Some (p, off)" and r: "resources s p = Some (Text c)" by blast
  show ?thesis using m r assms(2,3)
    by (simp add: update_one_read_def sys_lseek_def sys_read_def update_conv' Let_def)
qed

lemma update_one_text:
  assumes "fd_text s fd = Some c" "0 < length c" "length c < READ_SIZE"
  shows "snd (update_one s fd) =
           (if errno (fst (strtol s c)) \<noteq> 0 \<and> errno (fst (strtol s c)) \<noteq> EINTR
            then Inl (ERROR (Unable_to_convert (cstring c) fd) (errno (fst (strtol s c))))
            else Inr (word_of_int (fst (snd (strtol s c)))))"
    and "calls (fst (update_one s fd)) = calls s @ [Sys_lseek fd 0, Sys_read fd (int (length c))]"
proof -
  from update_one_read_text[OF assms] obtain s2 where
    u: "update_one_read s fd =
           (s2, Inr (int (length c), c @ replicate (READ_SIZE - length c) stack_garbage))"
    and c2: "calls s2 = calls s @ [Sys_lseek fd 0, Sys_read fd (int (length c))]" by blast
  let ?buf = "(c @ replicate (READ_SIZE - length c) stack_garbage)[nat (int (length c)) := NUL]"
  have cs: "cstring ?buf = cstring c" using assms(3) by (simp add: cstring_terminated)
  have st: "strtol s2 ?buf = strtol s2 c"
    using strtol_cstring[of s2 ?buf] strtol_cstring[of s2 c] cs by simp
  have f: "errno s2 = errno s" "noconv_einval s2 = noconv_einval s"
    using update_one_read_frame(7)[OF u] update_one_read_frame(2)[OF u] by simp_all
  have e: "errno (fst (strtol s2 c)) = errno (fst (strtol s c))"
    using strtol_errno_cong[OF f(2) f(1)] .
  have v: "snd (strtol s2 c) = snd (strtol s c)" by (rule strtol_snd)
  obtain s' r where ur: "update_one s fd = (s', r)" by (cases "update_one s fd")
  show "snd (update_one s fd) =
           (if errno (fst (strtol s c)) \<noteq> 0 \<and> errno (fst (strtol s c)) \<noteq> EINTR
            then Inl (ERROR (Unable_to_convert (cstring c) fd) (errno (fst (strtol s c))))
            else Inr (word_of_int (fst (snd (strtol s c)))))"
    using ur u st cs e v by (cases rule: update_one_cases[OF ur]) auto
  show "calls (fst (update_one s fd)) = calls s @ [Sys_lseek fd 0, Sys_read fd (int (length c))]"
    using ur u c2 by (cases rule: update_one_cases[OF ur]) auto
qed

lemma update_rx_loop_throws:
  assumes "rx_to_update m k = Some nd" "snd (update_one s (nd_fd nd)) = Inl e"
  shows "update_rx_loop s m (k # rest) = (fst (update_one s (nd_fd nd)), m, Some e)"
  using assms by (cases "update_one s (nd_fd nd)") simp

lemma update_tx_loop_throws:
  assumes "tx_to_update m k = Some nd" "snd (update_one s (nd_fd nd)) = Inl e"
  shows "update_tx_loop s m (k # rest) = (fst (update_one s (nd_fd nd)), m, Some e)"
  using assms by (cases "update_one s (nd_fd nd)") simp

subsection \<open>The loops of \<open>update_all\<close>\<close>

lemma tracked_store [simp]:
  "tracked (store m c nd) c' = (if c' = c then Some nd else tracked m c')"
  by (cases c; cases c') auto

lemma store_fields [simp]:
  "interface_name (store m c nd) = interface_name m"
  "interface_stats_path (store m c nd) = interface_stats_path m"
  by (cases c; simp)+

lemma update_rx_loop_counters:
  "update_rx_loop s m ks = update_counters s m (map Rx ks)"
  by (induction ks arbitrary: s m) (auto split: option.splits prod.splits sum.splits)

lemma update_tx_loop_counters:
  "update_tx_loop s m ks = update_counters s m (map Tx ks)"
  by (induction ks arbitrary: s m) (auto split: option.splits prod.splits sum.splits)

lemma update_counters_append:
  "update_counters s m (xs @ ys) =
     (case update_counters s m xs of
        (s1, m1, Some e) \<Rightarrow> (s1, m1, Some e)
      | (s1, m1, None) \<Rightarrow> update_counters s1 m1 ys)"
  by (induction xs arbitrary: s m) (auto split: option.splits prod.splits sum.splits)

lemma update_all_counters: "update_all s m = update_counters s m all_counters"
  unfolding update_all_def update_receive_data_def update_transmit_data_def
    all_counters_def update_counters_append update_rx_loop_counters update_tx_loop_counters
  by (rule refl)

lemma snapshot_tracked:
  "snapshot m c = (case tracked m c of None \<Rightarrow> 0 | Some nd \<Rightarrow> nd_value nd)"
proof (cases c)
  case (Rx r)
  then show ?thesis
    by (cases r) (simp_all add: get_receive_data_def fetch_one_rx_def)
next
  case (Tx t)
  then show ?thesis
    by (cases t) (simp_all add: get_transmit_data_def fetch_one_tx_def)
qed

lemma same_world_refl [simp]: "same_world s s"
  by (simp add: same_world_def)

lemma same_world_trans: "same_world s s1 \<Longrightarrow> same_world s1 s2 \<Longrightarrow> same_world s s2"
  by (simp add: same_world_def)

lemma same_world_fd_text: "same_world s s' \<Longrightarrow> fd_text s' = fd_text s"
  by (rule ext) (auto simp: same_world_def fd_text_def split: option.splits)

lemma update_one_same_world: "update_one s fd = (s', r) \<Longrightarrow> same_world s s'"
  by (simp add: same_world_def update_one_frame)

lemma same_handles_refl [simp]: "same_handles m m"
  by (simp add: same_handles_def)

lemma same_handles_trans: "same_handles m m1 \<Longrightarrow> same_handles m1 m2 \<Longrightarrow> same_handles m m2"
  by (simp add: same_handles_def)

lemma same_handles_store:
  "tracked m c = Some nd \<Longrightarrow> same_handles m (store m c (nd\<lparr>nd_value := v\<rparr>))"
  by (simp add: same_handles_def)

lemma readable_cong:
  "same_world s s' \<Longrightarrow> errno s' = errno s \<Longrightarrow> nd_fd nd' = nd_fd nd \<Longrightarrow>
     readable s' nd' = readable s nd"
proof -
  assume w: "same_world s s'" and e: "errno s' = errno s" and f: "nd_fd nd' = nd_fd nd"
  have t: "fd_text s' (nd_fd nd') = fd_text s (nd_fd nd)"
    using same_world_fd_text[OF w] f by simp
  have n: "noconv_einval s' = noconv_einval s" using w by (simp add: same_world_def)
  show ?thesis
    unfolding readable_def t using strtol_errno_cong[OF n e] e
    by (simp split: option.splits)
qed

lemma sys_lseek_calls:
  "calls (fst (sys_lseek s fd off)) = calls s @ [Sys_lseek fd (snd (sys_lseek s fd off))]"
  by (simp add: sys_lseek_def split: option.splits prod.splits)

lemma sys_read_calls:
  "calls (fst (sys_read s fd n)) = calls s @ [Sys_read fd (fst (snd (sys_read s fd n)))]"
  by (simp add: sys_read_def Let_def split: option.splits prod.splits resource.splits)

lemma update_one_read_calls:
  "calls (fst (update_one_read s fd)) = calls s @ [Sys_lseek fd (- 1)]
   \<or> (\<exists>ret n. calls (fst (update_one_read s fd)) = calls s @ [Sys_lseek fd ret, Sys_read fd n])"
proof -
  obtain s2 rr where u2: "update_one_read s fd = (s2, rr)" by (cases "update_one_read s fd")
  show ?thesis using u2
  proof (cases rule: update_one_read_cases)
    case (lseek_failed s1)
    then show ?thesis using sys_lseek_calls[of s fd 0] u2 by simp
  next
    case (read_full s1 ret s2' data)
    then show ?thesis using sys_lseek_calls[of s fd 0] sys_read_calls[of s1 fd READ_SIZE] u2
      by simp
  next
    case (read_nothing s1 ret s2' n data)
    then show ?thesis using sys_lseek_calls[of s fd 0] sys_read_calls[of s1 fd READ_SIZE] u2
      by simp
  next
    case (read_ok s1 ret n data)
    then show ?thesis using sys_lseek_calls[of s fd 0] sys_read_calls[of s1 fd READ_SIZE] u2
      by simp
  qed
qed

lemma update_one_calls: "\<exists>new. calls (fst (update_one s fd)) = calls s @ new"
proof -
  obtain s' r where u: "update_one s fd = (s', r)" by (cases "update_one s fd")
  have "calls s' = calls (fst (update_one_read s fd))"
    using u by (cases rule: update_one_cases) simp_all
  then show ?thesis using update_one_read_calls[of s fd] u by auto
qed


lemma update_counters_frame:
  "update_counters s m cs = (s', m', r) \<Longrightarrow>
     same_world s s' \<and> same_handles m m'
     \<and> (\<forall>c. c \<notin> set cs \<longrightarrow> tracked m' c = tracked m c)
     \<and> (\<exists>new. calls s' = calls s @ new)
     \<and> (r = None \<longrightarrow> errno s' = errno s \<and> stdout s' = stdout s)"
proof (induction cs arbitrary: s m)
  case Nil
  then show ?case by simp
next
  case (Cons c cs)
  show ?case
  proof (cases "tracked m c")
    case None
    then have "update_counters s m cs = (s', m', r)" using Cons.prems by simp
    from Cons.IH[OF this] show ?thesis by simp
  next
    case (Some nd)
    obtain s1 r1 where u: "update_one s (nd_fd nd) = (s1, r1)"
      by (cases "update_one s (nd_fd nd)")
    note w1 = update_one_same_world[OF u]
    from update_one_calls[of s "nd_fd nd"] u obtain new1 where
      c1: "calls s1 = calls s @ new1" by auto
    show ?thesis
    proof (cases r1)
      case (Inl e)
      then have "s' = s1" "m' = m" "r = Some e" using Cons.prems Some u by simp_all
      then show ?thesis using w1 c1 by simp
    next
      case (Inr v)
      let ?m1 = "store m c (nd\<lparr>nd_value := v\<rparr>)"
      have rest: "update_counters s1 ?m1 cs = (s', m', r)"
        using Cons.prems Some u Inr by simp
      note ih = Cons.IH[OF rest]
      have e1: "errno s1 = errno s" "stdout s1 = stdout s"
        using update_one_returns[of s "nd_fd nd" s1 v] u Inr by simp_all
      have "same_world s s'" using w1 ih same_world_trans by blast
      moreover have "same_handles m m'"
        using same_handles_store[OF Some, of v] ih same_handles_trans by blast
      moreover have "\<forall>d. d \<notin> set (c # cs) \<longrightarrow> tracked m' d = tracked m d"
        using ih by simp
      moreover have "\<exists>new. calls s' = calls s @ new" using ih c1 by auto
      moreover have "r = None \<longrightarrow> errno s' = errno s \<and> stdout s' = stdout s"
        using ih e1 by simp
      ultimately show ?thesis by blast
    qed
  qed
qed

lemma update_counters_value:
  assumes "update_counters s m cs = (s', m', None)" "c \<in> set cs" "tracked m c = Some nd"
    and "fd_text s (nd_fd nd) = Some cnt" "0 < length cnt" "length cnt < READ_SIZE"
  shows "tracked m' c = Some (nd\<lparr>nd_value := word_of_int (fst (snd (strtol s cnt)))\<rparr>)
     \<and> (\<exists>pre post. calls s' =
           calls s @ pre @ [Sys_lseek (nd_fd nd) 0, Sys_read (nd_fd nd) (int (length cnt))] @ post)"
  using assms
proof (induction cs arbitrary: s m nd)
  case Nil
  then show ?case by simp
next
  case (Cons d cs)
  show ?case
  proof (cases "tracked m d")
    case None
    then have rest: "update_counters s m cs = (s', m', None)" using Cons.prems(1) by simp
    have "c \<in> set cs" using Cons.prems(2,3) None by auto
    from Cons.IH[OF rest this Cons.prems(3-6)] show ?thesis .
  next
    case (Some ndd)
    obtain s1 r1 where u: "update_one s (nd_fd ndd) = (s1, r1)"
      by (cases "update_one s (nd_fd ndd)")
    obtain v where r1: "r1 = Inr v" using Cons.prems(1) Some u by (cases r1) simp_all
    let ?m1 = "store m d (ndd\<lparr>nd_value := v\<rparr>)"
    have rest: "update_counters s1 ?m1 cs = (s', m', None)"
      using Cons.prems(1) Some u r1 by simp
    note w1 = update_one_same_world[OF u]
    have t1: "fd_text s1 = fd_text s" by (rule same_world_fd_text[OF w1])
    from update_one_calls[of s "nd_fd ndd"] u obtain new1 where
      c1: "calls s1 = calls s @ new1" by auto
    note fr = update_counters_frame[OF rest]
    from fr obtain new2 where c2: "calls s' = calls s1 @ new2" by blast
    have val: "fst (snd (strtol s1 cnt)) = fst (snd (strtol s cnt))"
      using strtol_snd[of s1 cnt s] by simp
    show ?thesis
    proof (cases "d = c")
      case True
      then have nd: "ndd = nd" using Some Cons.prems(3) by simp
      have ut: "snd (update_one s (nd_fd nd)) = Inr v" using u r1 nd by simp
      have v: "v = word_of_int (fst (snd (strtol s cnt)))"
        using update_one_text(1)[OF Cons.prems(4-6)] ut by (auto split: if_splits)
      have cu: "calls s1 = calls s @ [Sys_lseek (nd_fd nd) 0, Sys_read (nd_fd nd) (int (length cnt))]"
        using update_one_text(2)[OF Cons.prems(4-6)] u nd by simp
      have tr: "\<exists>pre post. calls s' =
           calls s @ pre @ [Sys_lseek (nd_fd nd) 0, Sys_read (nd_fd nd) (int (length cnt))] @ post"
        using cu c2 by (intro exI[of _ "[]"] exI[of _ new2]) simp
      show ?thesis
      proof (cases "c \<in> set cs")
        case True
        have tm: "tracked ?m1 c = Some (nd\<lparr>nd_value := v\<rparr>)" using \<open>d = c\<close> nd by simp
        have tx: "fd_text s1 (nd_fd (nd\<lparr>nd_value := v\<rparr>)) = Some cnt"
          using t1 Cons.prems(4) by simp
        from Cons.IH[OF rest True tm tx Cons.prems(5,6)] val tr show ?thesis by simp
      next
        case False
        then have "tracked m' c = tracked ?m1 c" using fr by blast
        then show ?thesis using \<open>d = c\<close> nd v tr by simp
      qed
    next
      case False
      then have in_cs: "c \<in> set cs" using Cons.prems(2) by simp
      have tm: "tracked ?m1 c = Some nd" using False Cons.prems(3) by simp
      have tx: "fd_text s1 (nd_fd nd) = Some cnt" using t1 Cons.prems(4) by simp
      from Cons.IH[OF rest in_cs tm tx Cons.prems(5,6)] obtain pre post where
        a: "tracked m' c = Some (nd\<lparr>nd_value := word_of_int (fst (snd (strtol s1 cnt)))\<rparr>)"
        and b: "calls s' = calls s1 @ pre @
             [Sys_lseek (nd_fd nd) 0, Sys_read (nd_fd nd) (int (length cnt))] @ post"
        by blast
      have "calls s' = calls s @ (new1 @ pre) @
             [Sys_lseek (nd_fd nd) 0, Sys_read (nd_fd nd) (int (length cnt))] @ post"
        using b c1 by simp
      then show ?thesis using a val by metis
    qed
  qed
qed

lemma update_counters_succeeds:
  assumes "errno s = 0 \<or> errno s = EINTR"
    and "\<forall>c \<in> set cs. \<forall>nd. tracked m c = Some nd \<longrightarrow> readable s nd"
  shows "\<exists>s' m'. update_counters s m cs = (s', m', None)"
  using assms
proof (induction cs arbitrary: s m)
  case Nil
  then show ?case by simp
next
  case (Cons d cs)
  show ?case
  proof (cases "tracked m d")
    case None
    then show ?thesis using Cons.IH[OF Cons.prems(1)] Cons.prems(2) by simp
  next
    case (Some ndd)
    have rd: "readable s ndd" using Cons.prems(2) Some by simp
    then obtain cnt where t: "fd_text s (nd_fd ndd) = Some cnt" "0 < length cnt"
      "length cnt < READ_SIZE" "errno (fst (strtol s cnt)) = errno s"
      by (auto simp: readable_def split: option.splits)
    obtain s1 r1 where u: "update_one s (nd_fd ndd) = (s1, r1)"
      by (cases "update_one s (nd_fd ndd)")
    have "snd (update_one s (nd_fd ndd)) = Inr (word_of_int (fst (snd (strtol s cnt))))"
      using update_one_text(1)[OF t(1-3)] t(4) Cons.prems(1) by auto
    then obtain v where r1: "r1 = Inr v" using u by simp
    let ?m1 = "store m d (ndd\<lparr>nd_value := v\<rparr>)"
    note w1 = update_one_same_world[OF u]
    have e1: "errno s1 = errno s" using update_one_returns(1)[of s "nd_fd ndd" s1 v] u r1 by simp
    have clean: "errno s1 = 0 \<or> errno s1 = EINTR" using e1 Cons.prems(1) by simp
    have all: "\<forall>c \<in> set cs. \<forall>nd. tracked ?m1 c = Some nd \<longrightarrow> readable s1 nd"
    proof (intro ballI allI impI)
      fix c nd assume c: "c \<in> set cs" and tr: "tracked ?m1 c = Some nd"
      show "readable s1 nd"
      proof (cases "c = d")
        case True
        then have "nd = ndd\<lparr>nd_value := v\<rparr>" using tr by simp
        then show ?thesis using readable_cong[OF w1 e1, of nd ndd] rd by simp
      next
        case False
        then have "tracked m c = Some nd" using tr by simp
        then have "readable s nd" using Cons.prems(2) c by simp
        then show ?thesis using readable_cong[OF w1 e1, of nd nd] by simp
      qed
    qed
    from Cons.IH[OF clean all] show ?thesis using Some u r1 by simp
  qed
qed

lemma update_counters_aborts:
  "update_counters s m cs = (s', m', Some e) \<Longrightarrow>
     \<exists>pre c post. cs = pre @ c # post \<and> tracked m c \<noteq> None
        \<and> (\<forall>d \<in> set (c # post). d \<notin> set pre \<longrightarrow> tracked m' d = tracked m d)"
proof (induction cs arbitrary: s m)
  case Nil
  then show ?case by simp
next
  case (Cons c cs)
  show ?case
  proof (cases "tracked m c")
    case None
    then have "update_counters s m cs = (s', m', Some e)" using Cons.prems by simp
    from Cons.IH[OF this] obtain pre x post where
      p: "cs = pre @ x # post" "tracked m x \<noteq> None"
        "\<forall>d \<in> set (x # post). d \<notin> set pre \<longrightarrow> tracked m' d = tracked m d" by blast
    have "c # cs = (c # pre) @ x # post" using p(1) by simp
    moreover have "\<forall>d \<in> set (x # post). d \<notin> set (c # pre) \<longrightarrow> tracked m' d = tracked m d"
      using p(3) by simp
    ultimately show ?thesis using p(2) by blast
  next
    case (Some nd)
    obtain s1 r1 where u: "update_one s (nd_fd nd) = (s1, r1)"
      by (cases "update_one s (nd_fd nd)")
    show ?thesis
    proof (cases r1)
      case (Inl e1)
      then have "m' = m" using Cons.prems Some u by simp
      then have "c # cs = [] @ c # cs \<and> tracked m c \<noteq> None
          \<and> (\<forall>d \<in> set (c # cs). d \<notin> set [] \<longrightarrow> tracked m' d = tracked m d)"
        using Some by simp
      then show ?thesis by blast
    next
      case (Inr v)
      let ?m1 = "store m c (nd\<lparr>nd_value := v\<rparr>)"
      have rest: "update_counters s1 ?m1 cs = (s', m', Some e)"
        using Cons.prems Some u Inr by simp
      from Cons.IH[OF rest] obtain pre x post where
        p: "cs = pre @ x # post" "tracked ?m1 x \<noteq> None"
          "\<forall>d \<in> set (x # post). d \<notin> set pre \<longrightarrow> tracked m' d = tracked ?m1 d" by blast
      have "c # cs = (c # pre) @ x # post" using p(1) by simp
      moreover have "tracked m x \<noteq> None" using p(2) Some by (cases "x = c") simp_all
      moreover have
        "\<forall>d \<in> set (x # post). d \<notin> set (c # pre) \<longrightarrow> tracked m' d = tracked m d"
        using p(3) by simp
      ultimately show ?thesis by blast
    qed
  qed
qed

lemma all_counters_complete: "c \<in> set all_counters"
proof (cases c)
  case (Rx r)
  then show ?thesis by (cases r) (simp_all add: all_counters_def all_rx_fields_def)
next
  case (Tx t)
  then show ?thesis by (cases t) (simp_all add: all_counters_def all_tx_fields_def)
qed

lemma all_readableD: "all_readable s m \<Longrightarrow> tracked m c = Some nd \<Longrightarrow> readable s nd"
  using all_counters_complete[of c]
  by (auto simp: all_readable_def list_all_iff split: option.splits)

lemma update_all_succeeds:
  assumes "errno s = 0 \<or> errno s = EINTR" "all_readable s m"
  shows "\<exists>s' m'. update_all s m = (s', m', None)"
  unfolding update_all_counters
  using update_counters_succeeds[OF assms(1), of all_counters m] all_readableD[OF assms(2)]
  by blast

lemma update_all_value:
  assumes "update_all s m = (s', m', None)" "tracked m c = Some nd"
    and "fd_text s (nd_fd nd) = Some cnt" "0 < length cnt" "length cnt < READ_SIZE"
  shows "snapshot m' c = word_of_int (fst (snd (strtol s cnt)))"
    and "\<exists>pre post. calls s' =
           calls s @ pre @ [Sys_lseek (nd_fd nd) 0, Sys_read (nd_fd nd) (int (length cnt))] @ post"
  using update_counters_value[OF assms(1)[unfolded update_all_counters]
      all_counters_complete assms(2-5)]
  by (simp_all add: snapshot_tracked)

subsection \<open>Decimal texts\<close>

lemma isdigit_of_nat:
  assumes "k < 10"
  shows "isdigit (digit_char k) \<and> digit_val (digit_char k) = int k"
proof -
  from assms have "k = 0 \<or> k = 1 \<or> k = 2 \<or> k = 3 \<or> k = 4 \<or> k = 5 \<or> k = 6 \<or> k = 7
      \<or> k = 8 \<or> k = 9"
    by arith
  then show ?thesis
    by (elim disjE) (simp_all add: digit_char_def isdigit_def digit_val_def)
qed

lemma decimal_digits: "decimal n \<noteq> [] \<and> (\<forall>ch \<in> set (decimal n). isdigit ch)"
proof (induction n rule: decimal.induct)
  case (1 n)
  show ?case
  proof (cases "n < 10")
    case True
    then show ?thesis using isdigit_of_nat[of n] by (simp add: decimal.simps[of n])
  next
    case False
    then show ?thesis using 1 isdigit_of_nat[of "n mod 10"]
      by (simp add: decimal.simps[of n])
  qed
qed

lemma digits_value_snoc: "digits_value (ds @ [ch]) = digits_value ds * 10 + digit_val ch"
  by (simp add: digits_value_def)

lemma digits_value_decimal: "digits_value (decimal n) = int n"
proof (induction n rule: decimal.induct)
  case (1 n)
  show ?case
  proof (cases "n < 10")
    case True
    then show ?thesis using isdigit_of_nat[of n]
      by (simp add: decimal.simps[of n] digits_value_def)
  next
    case False
    then have "digits_value (decimal n) = int (n div 10) * 10 + int (n mod 10)"
      using 1 isdigit_of_nat[of "n mod 10"]
      by (simp add: decimal.simps[of n] digits_value_snoc)
    then show ?thesis by (simp add: zdiv_int zmod_int)
  qed
qed

lemma length_decimal: "n < 10 ^ k \<Longrightarrow> 0 < k \<Longrightarrow> length (decimal n) \<le> k"
proof (induction n arbitrary: k rule: decimal.induct)
  case (1 n)
  show ?case
  proof (cases "n < 10")
    case True
    then show ?thesis using 1(3) by (simp add: decimal.simps[of n])
  next
    case False
    obtain j where k: "k = Suc j" using 1(3) by (cases k) auto
    have j: "0 < j" using False 1(2) k by (cases j) auto
    have "n div 10 < 10 ^ j" using 1(2) k by (simp add: less_mult_imp_div_less mult.commute)
    from 1(1)[OF False this j] show ?thesis using False k by (simp add: decimal.simps[of n])
  qed
qed

lemma isdigit_plain:
  "isdigit ch \<Longrightarrow> ch \<noteq> NUL \<and> \<not> isspace ch \<and> ch \<noteq> CHR ''-'' \<and> ch \<noteq> CHR ''+''"
  by (auto simp: isdigit_def isspace_def)

lemma not_digit_newline: "\<not> isdigit CHR 0x0A" "CHR 0x0A \<noteq> NUL"
  by (simp_all add: isdigit_def)


lemma cstring_no_NUL: "\<forall>ch \<in> set xs. ch \<noteq> NUL \<Longrightarrow> cstring xs = xs"
  by (simp add: cstring_def)

lemma decimal_no_NUL: "ch \<in> set (decimal n) \<Longrightarrow> ch \<noteq> NUL"
  using decimal_digits[of n] isdigit_plain[of ch] by blast

lemma takeWhile_digits_decimal:
  assumes "tail = [] \<or> tail = ''\<newline>''"
  shows "takeWhile isdigit (decimal n @ tail) = decimal n"
proof -
  have dig: "\<forall>ch \<in> set (decimal n). isdigit ch" using decimal_digits[of n] by simp
  have "takeWhile isdigit (decimal n @ tail) = decimal n @ takeWhile isdigit tail"
    using dig by (simp add: takeWhile_append2)
  moreover have "takeWhile isdigit tail = []" using assms not_digit_newline(1) by auto
  ultimately show ?thesis by simp
qed

lemma strtol_decimal:
  assumes "tail = [] \<or> tail = ''\<newline>''"
  shows "strtol s (decimal n @ tail) =
           (if int n \<le> LONG_MAX then (s, int n, length (decimal n))
            else (s\<lparr>errno := ERANGE\<rparr>, LONG_MAX, length (decimal n)))"
proof -
  obtain x xs where ds: "decimal n = x # xs" using decimal_digits[of n] by (cases "decimal n") auto
  have dig: "\<forall>ch \<in> set (decimal n). isdigit ch" using decimal_digits[of n] by simp
  have x: "isdigit x" using dig ds by simp
  have "\<forall>ch \<in> set (decimal n @ tail). ch \<noteq> NUL"
    using decimal_no_NUL[of _ n] assms by auto
  then have cs: "cstring (decimal n @ tail) = decimal n @ tail" by (rule cstring_no_NUL)
  have sp: "takeWhile isspace (decimal n @ tail) = []" "dropWhile isspace (decimal n @ tail) = decimal n @ tail"
    using x isdigit_plain[of x] ds by simp_all
  have hd: "hd (decimal n @ tail) = x" "decimal n @ tail \<noteq> []" using ds by simp_all
  have sg: "x \<noteq> CHR ''-''" "x \<noteq> CHR ''+''" using isdigit_plain[OF x] by simp_all
  have tk: "takeWhile isdigit (decimal n @ tail) = decimal n"
    by (rule takeWhile_digits_decimal[OF assms])
  have ne: "decimal n \<noteq> []" using ds by simp
  show ?thesis
    unfolding strtol_def Let_def cs sp hd
    using sg tk ne by (simp add: digits_value_decimal)
qed

lemma strtol_minus_decimal:
  assumes "tail = [] \<or> tail = ''\<newline>''"
  shows "strtol s (CHR ''-'' # decimal n @ tail) =
           (if LONG_MIN \<le> - int n then (s, - int n, 1 + length (decimal n))
            else (s\<lparr>errno := ERANGE\<rparr>, LONG_MIN, 1 + length (decimal n)))"
proof -
  have dig: "\<forall>ch \<in> set (decimal n). isdigit ch" using decimal_digits[of n] by simp
  have "\<forall>ch \<in> set (CHR ''-'' # decimal n @ tail). ch \<noteq> NUL"
    using decimal_no_NUL[of _ n] assms by auto
  then have cs: "cstring (CHR ''-'' # decimal n @ tail) = CHR ''-'' # decimal n @ tail"
    by (rule cstring_no_NUL)
  have sp: "takeWhile isspace (CHR ''-'' # decimal n @ tail) = []"
    "dropWhile isspace (CHR ''-'' # decimal n @ tail) = CHR ''-'' # decimal n @ tail"
    by (simp_all add: isspace_def)
  have tk: "takeWhile isdigit (decimal n @ tail) = decimal n"
    by (rule takeWhile_digits_decimal[OF assms])
  have ne: "decimal n \<noteq> []" using decimal_digits[of n] by simp
  have pos: "\<not> LONG_MAX < - int n" by simp
  show ?thesis
    unfolding strtol_def Let_def cs sp
    using tk ne pos by (simp add: digits_value_decimal)
qed

lemma update_counters_converted:
  assumes "update_counters s m cs = (s', m', None)" "c \<in> set cs" "tracked m c = Some nd"
    and "fd_text s (nd_fd nd) = Some cnt" "0 < length cnt" "length cnt < READ_SIZE"
  shows "errno (fst (strtol s cnt)) = 0 \<or> errno (fst (strtol s cnt)) = EINTR"
  using assms
proof (induction cs arbitrary: s m nd)
  case Nil
  then show ?case by simp
next
  case (Cons d cs)
  show ?case
  proof (cases "tracked m d")
    case None
    then have rest: "update_counters s m cs = (s', m', None)" using Cons.prems(1) by simp
    have "c \<in> set cs" using Cons.prems(2,3) None by auto
    from Cons.IH[OF rest this Cons.prems(3-6)] show ?thesis .
  next
    case (Some ndd)
    obtain s1 r1 where u: "update_one s (nd_fd ndd) = (s1, r1)"
      by (cases "update_one s (nd_fd ndd)")
    obtain v where r1: "r1 = Inr v" using Cons.prems(1) Some u by (cases r1) simp_all
    let ?m1 = "store m d (ndd\<lparr>nd_value := v\<rparr>)"
    have rest: "update_counters s1 ?m1 cs = (s', m', None)"
      using Cons.prems(1) Some u r1 by simp
    show ?thesis
    proof (cases "d = c")
      case True
      then have nd: "ndd = nd" using Some Cons.prems(3) by simp
      have "snd (update_one s (nd_fd nd)) = Inr v" using u r1 nd by simp
      then show ?thesis using update_one_text(1)[OF Cons.prems(4-6)] by (auto split: if_splits)
    next
      case False
      then have in_cs: "c \<in> set cs" using Cons.prems(2) by simp
      have tm: "tracked ?m1 c = Some nd" using False Cons.prems(3) by simp
      note w1 = update_one_same_world[OF u]
      have tx: "fd_text s1 (nd_fd nd) = Some cnt"
        using same_world_fd_text[OF w1] Cons.prems(4) by simp
      have e1: "errno s1 = errno s" using update_one_returns(1)[of s "nd_fd ndd" s1 v] u r1 by simp
      have n1: "noconv_einval s1 = noconv_einval s" using w1 by (simp add: same_world_def)
      from Cons.IH[OF rest in_cs tm tx Cons.prems(5,6)] strtol_errno_cong[OF n1 e1, of cnt]
      show ?thesis by simp
    qed
  qed
qed

lemma update_counters_aborts_at:
  "update_counters s m cs = (s', m', Some e) \<Longrightarrow>
     \<exists>pre c post nd s0. cs = pre @ c # post
        \<and> update_counters s m pre = (s0, m', None)
        \<and> tracked m' c = Some nd \<and> update_one s0 (nd_fd nd) = (s', Inl e)"
proof (induction cs arbitrary: s m)
  case Nil
  then show ?case by simp
next
  case (Cons c cs)
  show ?case
  proof (cases "tracked m c")
    case None
    then have "update_counters s m cs = (s', m', Some e)" using Cons.prems by simp
    from Cons.IH[OF this] obtain pre x post nd s0 where
      p: "cs = pre @ x # post" "update_counters s m pre = (s0, m', None)"
        "tracked m' x = Some nd" "update_one s0 (nd_fd nd) = (s', Inl e)" by blast
    have "c # cs = (c # pre) @ x # post" using p(1) by simp
    moreover have "update_counters s m (c # pre) = (s0, m', None)" using p(2) None by simp
    ultimately show ?thesis using p(3,4) by blast
  next
    case (Some nd)
    obtain s1 r1 where u: "update_one s (nd_fd nd) = (s1, r1)"
      by (cases "update_one s (nd_fd nd)")
    show ?thesis
    proof (cases r1)
      case (Inl e1)
      then have "m' = m" "s' = s1" "e1 = e" using Cons.prems Some u by simp_all
      then have "c # cs = [] @ c # cs \<and> update_counters s m [] = (s, m', None)
          \<and> tracked m' c = Some nd \<and> update_one s (nd_fd nd) = (s', Inl e)"
        using Some u Inl by simp
      then show ?thesis by blast
    next
      case (Inr v)
      let ?m1 = "store m c (nd\<lparr>nd_value := v\<rparr>)"
      have rest: "update_counters s1 ?m1 cs = (s', m', Some e)"
        using Cons.prems Some u Inr by simp
      from Cons.IH[OF rest] obtain pre x post ndx s0 where
        p: "cs = pre @ x # post" "update_counters s1 ?m1 pre = (s0, m', None)"
          "tracked m' x = Some ndx" "update_one s0 (nd_fd ndx) = (s', Inl e)" by blast
      have "c # cs = (c # pre) @ x # post" using p(1) by simp
      moreover have "update_counters s m (c # pre) = (s0, m', None)"
        using p(2) Some u Inr by simp
      ultimately show ?thesis using p(3,4) by blast
    qed
  qed
qed

lemma distinct_all_counters: "distinct all_counters"
  by (simp add: all_counters_def all_rx_fields_def all_tx_fields_def distinct_map inj_on_def)

lemma unat_word_of_neg:
  assumes "0 < n" "n \<le> 2 ^ 63"
  shows "unat (word_of_int (- int n) :: 64 word) = 2 ^ 64 - n"
proof -
  have "(- int n) mod 2 ^ 64 = 2 ^ 64 - int n"
    using assms by (intro int_mod_pos_eq[where q = "- 1"]) auto
  moreover have "uint (word_of_int (- int n) :: 64 word) = (- int n) mod 2 ^ LENGTH(64)"
    by (rule uint_word_of_int)
  ultimately have "uint (word_of_int (- int n) :: 64 word) = 2 ^ 64 - int n" by simp
  then have "unat (word_of_int (- int n) :: 64 word) = nat (2 ^ 64 - int n)"
    by (simp only: unat_eq_nat_uint)
  then show ?thesis using assms by (simp add: nat_diff_distrib')
qed

lemma unat_word_of_nat64:
  assumes "n < 2 ^ 64"
  shows "unat (word_of_int (int n) :: 64 word) = n"
proof -
  have "uint (word_of_int (int n) :: 64 word) = int n mod 2 ^ LENGTH(64)"
    by (rule uint_word_of_int)
  then have "uint (word_of_int (int n) :: 64 word) = int n" using assms by simp
  then have "unat (word_of_int (int n) :: 64 word) = nat (int n)"
    by (simp only: unat_eq_nat_uint)
  then show ?thesis by simp
qed

subsection \<open>Opening and subscribing\<close>

lemma lowest_free_from_ge: "n \<le> lowest_free_from used k n"
proof (induction k arbitrary: n)
  case 0
  then show ?case by simp
next
  case (Suc k)
  show ?case using Suc[of "n + 1"] by simp
qed

lemma lowest_free_from_fresh:
  "card {x \<in> set used. n \<le> x} \<le> k \<Longrightarrow> lowest_free_from used k n \<notin> set used"
proof (induction k arbitrary: n)
  case 0
  then have "{x \<in> set used. n \<le> x} = {}" by simp
  then show ?case by auto
next
  case (Suc k)
  show ?case
  proof (cases "n \<in> set used")
    case True
    have eq: "{x \<in> set used. n + 1 \<le> x} = {x \<in> set used. n \<le> x} - {n}" by auto
    have "n \<in> {x \<in> set used. n \<le> x}" using True by simp
    then have "card {x \<in> set used. n + 1 \<le> x} < card {x \<in> set used. n \<le> x}"
      unfolding eq by (intro card_Diff1_less) simp_all
    then have "card {x \<in> set used. n + 1 \<le> x} \<le> k" using Suc.prems by simp
    from Suc.IH[OF this] True show ?thesis by simp
  next
    case False
    then show ?thesis by simp
  qed
qed

lemma lowest_free_fresh: "lowest_free used \<notin> set used" "0 \<le> lowest_free used"
proof -
  have "card {x \<in> set used. 0 \<le> x} \<le> card (set used)" by (intro card_mono) auto
  also have "\<dots> \<le> length used" by (rule card_length)
  finally show "lowest_free used \<notin> set used"
    unfolding lowest_free_def by (rule lowest_free_from_fresh)
  show "0 \<le> lowest_free used" unfolding lowest_free_def by (rule lowest_free_from_ge)
qed

lemma sys_open_cases:
  assumes "sys_open s p = (s', fd)"
  obtains (failed) "fd = - 1" "s' = called (Sys_open p (- 1)) (s\<lparr>errno := ENOENT\<rparr>)"
  | (opened) "0 \<le> fd" "fd \<notin> fst ` set (fdtab s)"
      "s' = called (Sys_open p fd) (s\<lparr>fdtab := (fd, p, 0) # fdtab s\<rparr>)"
proof (cases "resources s p")
  case None
  then have "fd = - 1" "s' = called (Sys_open p (- 1)) (s\<lparr>errno := ENOENT\<rparr>)"
    using assms by (auto simp: sys_open_def)
  then show ?thesis by (rule failed)
next
  case (Some r)
  then have "fd = lowest_free (map fst (fdtab s))"
    "s' = called (Sys_open p fd) (s\<lparr>fdtab := (fd, p, 0) # fdtab s\<rparr>)"
    using assms by (auto simp: sys_open_def Let_def)
  then show ?thesis using lowest_free_fresh[of "map fst (fdtab s)"] by (intro opened) simp_all
qed

lemma all_opens_append: "all_opens (xs @ ys) = all_opens xs @ all_opens ys"
  by (induction xs rule: all_opens.induct) simp_all

lemma set_rx_loop_counters: "set_rx_loop s m ks = subscribe_counters s m (map Rx ks)"
  by (induction ks arbitrary: s m)
    (simp_all add: counter_path_def Let_def split: prod.splits)

lemma set_tx_loop_counters: "set_tx_loop s m ks = subscribe_counters s m (map Tx ks)"
  by (induction ks arbitrary: s m)
    (simp_all add: counter_path_def Let_def split: prod.splits)

lemma distinct_filenames: "distinct (map counter_filename all_counters)"
  by (simp add: all_counters_def all_rx_fields_def all_tx_fields_def)

lemma counter_filename_inj: "counter_filename c = counter_filename c' \<Longrightarrow> c = c'"
  using distinct_filenames all_counters_complete[of c] all_counters_complete[of c']
  by (auto simp: distinct_map inj_on_def)

lemma counter_path_inj: "counter_path m c = counter_path m c' \<Longrightarrow> c = c'"
  by (simp add: counter_path_def counter_filename_inj)

lemma counter_path_store [simp]: "counter_path (store m c nd) = counter_path m"
  by (rule ext) (simp add: counter_path_def)

lemma subscribe_counters_frame:
  "subscribe_counters s m cs = (s', m', x) \<Longrightarrow>
     interface_stats_path m' = interface_stats_path m
     \<and> interface_name m' = interface_name m
     \<and> (\<forall>c nd. tracked m c = Some nd \<longrightarrow> tracked m' c = Some nd)
     \<and> (\<forall>c. tracked m' c \<noteq> None \<longrightarrow> tracked m c \<noteq> None \<or> c \<in> set cs)
     \<and> (x = None \<longrightarrow> (\<forall>c \<in> set cs. tracked m' c \<noteq> None))"
proof (induction cs arbitrary: s m)
  case Nil
  then show ?case by simp
next
  case (Cons c cs)
  show ?case
  proof (cases "tracked m c \<noteq> None")
    case True
    then have "subscribe_counters (print (Already_monitoring (counter_name c)) s) m cs = (s', m', x)"
      using Cons.prems by simp
    from Cons.IH[OF this] True show ?thesis by auto
  next
    case False
    let ?p = "counter_path m c"
    let ?s1 = "print (Opening (counter_name c) ?p) s"
    obtain s2 fd where o: "sys_open ?s1 ?p = (s2, fd)" by (cases "sys_open ?s1 ?p")
    show ?thesis
    proof (cases "fd = - 1")
      case True
      then have "m' = m" "x \<noteq> None"
        using Cons.prems False o by (auto simp: throw_from_def Let_def)
      then show ?thesis by auto
    next
      case nf: False
      let ?m1 = "store m c (netdata_of_fd fd)"
      have "subscribe_counters (print (Got_fd (counter_name c) fd) s2) ?m1 cs = (s', m', x)"
        using Cons.prems False o nf by (simp add: Let_def)
      note ih = Cons.IH[OF this]
      have keep1: "tracked m' d = Some nd" if "tracked ?m1 d = Some nd" for d nd
        using ih that by blast
      have a: "\<forall>d nd. tracked m d = Some nd \<longrightarrow> tracked m' d = Some nd"
      proof (intro allI impI)
        fix d nd assume t: "tracked m d = Some nd"
        then have "d \<noteq> c" using False by auto
        then have "tracked ?m1 d = Some nd" using t by simp
        then show "tracked m' d = Some nd" by (rule keep1)
      qed
      have b: "\<forall>d. tracked m' d \<noteq> None \<longrightarrow> tracked m d \<noteq> None \<or> d \<in> set (c # cs)"
      proof (intro allI impI)
        fix d assume "tracked m' d \<noteq> None"
        then have "tracked ?m1 d \<noteq> None \<or> d \<in> set cs" using ih by blast
        then show "tracked m d \<noteq> None \<or> d \<in> set (c # cs)" by (cases "d = c") auto
      qed
      have "tracked m' c \<noteq> None" using keep1[of c "netdata_of_fd fd"] by simp
      then have c: "x = None \<longrightarrow> (\<forall>d \<in> set (c # cs). tracked m' d \<noteq> None)"
        using ih by simp
      show ?thesis using ih a b c by simp
    qed
  qed
qed

lemma subscribe_counters_noop:
  "\<forall>c \<in> set cs. tracked m c \<noteq> None \<Longrightarrow>
     subscribe_counters s m cs =
       (fold (\<lambda>c. print (Already_monitoring (counter_name c))) cs s, m, None)"
  by (induction cs arbitrary: s) simp_all

lemma fold_print_fields [simp]:
  "calls (fold (\<lambda>c. print (f c)) cs s) = calls s"
  "fdtab (fold (\<lambda>c. print (f c)) cs s) = fdtab s"
  "errno (fold (\<lambda>c. print (f c)) cs s) = errno s"
  "resources (fold (\<lambda>c. print (f c)) cs s) = resources s"
  "stdout (fold (\<lambda>c. print (f c)) cs s) = stdout s @ map f cs"
  by (induction cs arbitrary: s) simp_all

subsection \<open>The life of an object\<close>

lemma lifetime_inv_cong:
  "calls s' = calls s \<Longrightarrow> fdtab s' = fdtab s \<Longrightarrow> lifetime_inv b s' m = lifetime_inv b s m"
  by (simp add: lifetime_inv_def)

lemma same_handles_pairs:
  assumes "same_handles m m'"
  shows "{(counter_path m' c, nd_fd nd) | c nd. tracked m' c = Some nd}
       = {(counter_path m c, nd_fd nd) | c nd. tracked m c = Some nd}"
proof -
  have p: "counter_path m' = counter_path m"
    using assms by (intro ext) (simp add: counter_path_def same_handles_def)
  have f: "map_option nd_fd (tracked m' c) = map_option nd_fd (tracked m c)" for c
    using assms by (simp add: same_handles_def)
  have "(\<exists>nd. tracked m' c = Some nd \<and> nd_fd nd = k) = (\<exists>nd. tracked m c = Some nd \<and> nd_fd nd = k)"
    for c k
    using f[of c] by (cases "tracked m' c"; cases "tracked m c") auto
  then show ?thesis unfolding p by (auto; metis)
qed

lemma update_one_opens: "all_opens (calls (fst (update_one s fd))) = all_opens (calls s)"
proof -
  obtain s' r where u: "update_one s fd = (s', r)" by (cases "update_one s fd")
  have "calls s' = calls (fst (update_one_read s fd))"
    using u by (cases rule: update_one_cases) simp_all
  then show ?thesis using update_one_read_calls[of s fd] u
    by (auto simp: all_opens_append)
qed

lemma update_counters_opens:
  "update_counters s m cs = (s', m', x) \<Longrightarrow> all_opens (calls s') = all_opens (calls s)"
proof (induction cs arbitrary: s m)
  case Nil
  then show ?case by simp
next
  case (Cons c cs)
  show ?case
  proof (cases "tracked m c")
    case None
    then show ?thesis using Cons by simp
  next
    case (Some nd)
    obtain s1 r1 where u: "update_one s (nd_fd nd) = (s1, r1)"
      by (cases "update_one s (nd_fd nd)")
    have o: "all_opens (calls s1) = all_opens (calls s)"
      using update_one_opens[of s "nd_fd nd"] u by simp
    show ?thesis
    proof (cases r1)
      case (Inl e)
      then show ?thesis using Cons.prems Some u o by simp
    next
      case (Inr v)
      then have "update_counters s1 (store m c (nd\<lparr>nd_value := v\<rparr>)) cs = (s', m', x)"
        using Cons.prems Some u by simp
      from Cons.IH[OF this] o show ?thesis by simp
    qed
  qed
qed

lemma update_counters_inv:
  assumes "update_counters s m cs = (s', m', x)" "lifetime_inv b s m"
  shows "lifetime_inv b s' m'"
proof -
  note fr = update_counters_frame[OF assms(1)]
  have k: "map fst (fdtab s') = map fst (fdtab s)" using fr by (simp add: same_world_def)
  then have "set (map fst (fdtab s')) = set (map fst (fdtab s))" by simp
  then have k': "fst ` set (fdtab s') = fst ` set (fdtab s)" by simp
  have h: "same_handles m m'" using fr by simp
  show ?thesis
    using assms(2)
    unfolding lifetime_inv_def update_counters_opens[OF assms(1)] same_handles_pairs[OF h] k'
    .
qed

lemma lifetime_inv_open:
  assumes inv: "lifetime_inv b s m" and un: "tracked m c = None"
    and o: "sys_open s1 (counter_path m c) = (s2, fd)" and nf: "fd \<noteq> - 1"
    and s1: "calls s1 = calls s" "fdtab s1 = fdtab s"
    and s3: "calls s3 = calls s2" "fdtab s3 = fdtab s2"
  shows "lifetime_inv b s3 (store m c (netdata_of_fd fd))"
proof -
  let ?p = "counter_path m c"
  let ?m1 = "store m c (netdata_of_fd fd)"
  from o nf have fresh: "fd \<notin> fst ` set (fdtab s1)"
    and s2: "s2 = called (Sys_open ?p fd) (s1\<lparr>fdtab := (fd, ?p, 0) # fdtab s1\<rparr>)"
    by (cases rule: sys_open_cases; simp)+
  from inv obtain opens where
    i: "all_opens (calls s) = all_opens b @ opens" "distinct (map fst opens)"
      "distinct (map snd opens)"
      "set opens = {(counter_path m c, nd_fd nd) | c nd. tracked m c = Some nd}"
      "snd ` set opens \<subseteq> fst ` set (fdtab s)"
    unfolding lifetime_inv_def by blast
  let ?opens = "opens @ [(?p, fd)]"
  have a: "all_opens (calls s3) = all_opens b @ ?opens"
    using s3 s2 s1 i(1) nf by (simp add: all_opens_append)
  have "?p \<notin> fst ` set opens"
  proof
    assume "?p \<in> fst ` set opens"
    then obtain k where "(?p, k) \<in> set opens" by auto
    then obtain c' nd where "?p = counter_path m c'" "tracked m c' = Some nd"
      unfolding i(4) by auto
    then show False using counter_path_inj[of m c c'] un by simp
  qed
  then have b: "distinct (map fst ?opens)" using i(2) by simp
  have "fd \<notin> snd ` set opens" using fresh i(5) s1 by auto
  then have c: "distinct (map snd ?opens)" using i(3) by simp
  have d: "set ?opens = {(counter_path ?m1 c', nd_fd nd) | c' nd. tracked ?m1 c' = Some nd}"
    unfolding set_append i(4) using un
    by (auto simp: netdata_of_fd_def split: if_splits)
  have e: "snd ` set ?opens \<subseteq> fst ` set (fdtab s3)"
    using i(5) s3 s2 s1 by auto
  show ?thesis unfolding lifetime_inv_def using a b c d e by blast
qed

lemma lifetime_inv_failed_open:
  assumes inv: "lifetime_inv b s m"
    and o: "sys_open s1 p = (s2, - 1)"
    and s1: "calls s1 = calls s" "fdtab s1 = fdtab s"
    and s3: "calls s3 = calls s2" "fdtab s3 = fdtab s2"
  shows "lifetime_inv b s3 m"
proof -
  from o have s2: "s2 = called (Sys_open p (- 1)) (s1\<lparr>errno := ENOENT\<rparr>)"
    by (cases rule: sys_open_cases) simp_all
  have "all_opens (calls s3) = all_opens (calls s)" "fdtab s3 = fdtab s"
    using s3 s2 s1 by (simp_all add: all_opens_append)
  then show ?thesis using inv unfolding lifetime_inv_def by simp
qed

lemma subscribe_counters_inv:
  "subscribe_counters s m cs = (s', m', x) \<Longrightarrow> lifetime_inv b s m \<Longrightarrow> lifetime_inv b s' m'"
proof (induction cs arbitrary: s m)
  case Nil
  then show ?case by simp
next
  case (Cons c cs)
  show ?case
  proof (cases "tracked m c \<noteq> None")
    case True
    let ?s1 = "print (Already_monitoring (counter_name c)) s"
    have r: "subscribe_counters ?s1 m cs = (s', m', x)" using Cons.prems(1) True by simp
    have "lifetime_inv b ?s1 m" using Cons.prems(2) lifetime_inv_cong[of ?s1 s b m] by simp
    from Cons.IH[OF r this] show ?thesis .
  next
    case False
    then have un: "tracked m c = None" by simp
    let ?p = "counter_path m c"
    let ?s1 = "print (Opening (counter_name c) ?p) s"
    obtain s2 fd where o: "sys_open ?s1 ?p = (s2, fd)" by (cases "sys_open ?s1 ?p")
    show ?thesis
    proof (cases "fd = - 1")
      case True
      let ?e = "ERROR (Opening_stats_file (counter_name c) ?p) (errno s2)"
      have r: "s' = print (Vprint ?e) s2" "m' = m"
        using Cons.prems(1) un o True by (auto simp: throw_from_def Let_def)
      show ?thesis unfolding r
        by (rule lifetime_inv_failed_open[OF Cons.prems(2) o[unfolded True]]) simp_all
    next
      case nf: False
      let ?m1 = "store m c (netdata_of_fd fd)"
      let ?s3 = "print (Got_fd (counter_name c) fd) s2"
      have r: "subscribe_counters ?s3 ?m1 cs = (s', m', x)"
        using Cons.prems(1) un o nf by (simp add: Let_def)
      have "lifetime_inv b ?s3 ?m1"
        by (rule lifetime_inv_open[OF Cons.prems(2) un o nf]) simp_all
      from Cons.IH[OF r this] show ?thesis .
    qed
  qed
qed

lemma set_filter_all_rx: "set (filter (\<lambda>i. i \<in> S) all_rx_fields) = S"
proof -
  have "r \<in> set all_rx_fields" for r by (cases r) (simp_all add: all_rx_fields_def)
  then show ?thesis by auto
qed

lemma set_filter_all_tx: "set (filter (\<lambda>i. i \<in> S) all_tx_fields) = S"
proof -
  have "t \<in> set all_tx_fields" for t by (cases t) (simp_all add: all_tx_fields_def)
  then show ?thesis by auto
qed

lemma set_rx_counters:
  "set_rx_stats_to_update s m S =
     subscribe_counters s m (map Rx (filter (\<lambda>i. i \<in> S) all_rx_fields))"
  by (simp add: set_rx_stats_to_update_def set_rx_loop_counters)

lemma set_tx_counters:
  "set_tx_stats_to_update s m S =
     subscribe_counters s m (map Tx (filter (\<lambda>i. i \<in> S) all_tx_fields))"
  by (simp add: set_tx_stats_to_update_def set_tx_loop_counters)

lemma update_receive_counters:
  "update_receive_data s m = update_counters s m (map Rx all_rx_fields)"
  by (simp add: update_receive_data_def update_rx_loop_counters)

lemma update_transmit_counters:
  "update_transmit_data s m = update_counters s m (map Tx all_tx_fields)"
  by (simp add: update_transmit_data_def update_tx_loop_counters)

lemma requested_Cons: "requested (op # ops) = requested [op] \<union> requested ops"
  by (cases op) auto

lemma subscribe_step:
  assumes "subscribe_counters s m cs = (s', m', x)" "lifetime_inv b s m"
  shows "lifetime_inv b s' m' \<and> interface_stats_path m' = interface_stats_path m
     \<and> (\<forall>c. tracked m' c \<noteq> None \<longrightarrow> tracked m c \<noteq> None \<or> c \<in> set cs)"
  using subscribe_counters_inv[OF assms] subscribe_counters_frame[OF assms(1)] by blast

lemma update_step:
  assumes "update_counters s m cs = (s', m', x)" "lifetime_inv b s m"
  shows "lifetime_inv b s' m' \<and> interface_stats_path m' = interface_stats_path m
     \<and> (\<forall>c. tracked m' c \<noteq> None \<longrightarrow> tracked m c \<noteq> None)"
proof -
  have h: "same_handles m m'" using update_counters_frame[OF assms(1)] by simp
  have "tracked m c \<noteq> None" if "tracked m' c \<noteq> None" for c
  proof -
    have "map_option nd_fd (tracked m' c) = map_option nd_fd (tracked m c)"
      using h by (simp add: same_handles_def)
    then show ?thesis using that by (cases "tracked m c") auto
  qed
  then show ?thesis using update_counters_inv[OF assms] h by (simp add: same_handles_def)
qed

lemma client_step_inv:
  assumes "client_step (s, m) op = (s', m')" "lifetime_inv b s m"
  shows "lifetime_inv b s' m' \<and> interface_stats_path m' = interface_stats_path m
     \<and> (\<forall>c. tracked m' c \<noteq> None \<longrightarrow> tracked m c \<noteq> None \<or> c \<in> requested [op])"
proof (cases op)
  case (Set_rx S)
  obtain x where "subscribe_counters s m (map Rx (filter (\<lambda>i. i \<in> S) all_rx_fields)) = (s', m', x)"
    using assms(1) Set_rx by (auto simp: set_rx_counters split: prod.splits)
  note st = subscribe_step[OF this assms(2)]
  have "set (map Rx (filter (\<lambda>i. i \<in> S) all_rx_fields)) = Rx ` S"
    by (simp only: set_map set_filter_all_rx)
  then show ?thesis using st Set_rx by simp
next
  case (Set_tx S)
  obtain x where "subscribe_counters s m (map Tx (filter (\<lambda>i. i \<in> S) all_tx_fields)) = (s', m', x)"
    using assms(1) Set_tx by (auto simp: set_tx_counters split: prod.splits)
  note st = subscribe_step[OF this assms(2)]
  have "set (map Tx (filter (\<lambda>i. i \<in> S) all_tx_fields)) = Tx ` S"
    by (simp only: set_map set_filter_all_tx)
  then show ?thesis using st Set_tx by simp
next
  case Update_all
  obtain x where "update_counters s m all_counters = (s', m', x)"
    using assms(1) Update_all by (auto simp: update_all_counters split: prod.splits)
  from update_step[OF this assms(2)] show ?thesis by simp
next
  case Update_receive
  obtain x where "update_counters s m (map Rx all_rx_fields) = (s', m', x)"
    using assms(1) Update_receive by (auto simp: update_receive_counters split: prod.splits)
  from update_step[OF this assms(2)] show ?thesis by simp
next
  case Update_transmit
  obtain x where "update_counters s m (map Tx all_tx_fields) = (s', m', x)"
    using assms(1) Update_transmit by (auto simp: update_transmit_counters split: prod.splits)
  from update_step[OF this assms(2)] show ?thesis by simp
next
  case (Env_resource p r)
  then have "m' = m" "calls s' = calls s" "fdtab s' = fdtab s" using assms(1) by auto
  then show ?thesis using assms(2) lifetime_inv_cong[of s' s b m] by simp
next
  case (Env_errno e)
  then have "m' = m" "calls s' = calls s" "fdtab s' = fdtab s" using assms(1) by auto
  then show ?thesis using assms(2) lifetime_inv_cong[of s' s b m] by simp
next
  case (Env_close_error fd e)
  then have "m' = m" "calls s' = calls s" "fdtab s' = fdtab s" using assms(1) by auto
  then show ?thesis using assms(2) lifetime_inv_cong[of s' s b m] by simp
qed

lemma client_run_inv:
  "client_run (s, m) ops = (s', m') \<Longrightarrow> lifetime_inv b s m \<Longrightarrow>
     lifetime_inv b s' m' \<and> interface_stats_path m' = interface_stats_path m
     \<and> (\<forall>c. tracked m' c \<noteq> None \<longrightarrow> tracked m c \<noteq> None \<or> c \<in> requested ops)"
proof (induction ops arbitrary: s m)
  case Nil
  then show ?case by (simp add: client_run_def)
next
  case (Cons op ops)
  obtain s1 m1 where st: "client_step (s, m) op = (s1, m1)" by (cases "client_step (s, m) op")
  have run: "client_run (s1, m1) ops = (s', m')"
    using Cons.prems(1) st by (simp add: client_run_def)
  note one = client_step_inv[OF st Cons.prems(2)]
  from one have i1: "lifetime_inv b s1 m1" by simp
  note rest = Cons.IH[OF run i1]
  have "tracked m c \<noteq> None \<or> c \<in> requested (op # ops)" if "tracked m' c \<noteq> None" for c
  proof -
    from rest that have "tracked m1 c \<noteq> None \<or> c \<in> requested ops" by blast
    then show ?thesis using one requested_Cons[of op ops] by blast
  qed
  then show ?case using rest one by simp
qed

lemma construct_object:
  assumes "construct s interface = (s0, Inr m0)"
  shows "tracked m0 c = None" "lifetime_inv (calls s0) s0 m0"
proof -
  have m0: "rx_to_update m0 = Map.empty \<and> tx_to_update m0 = Map.empty"
    using assms
    by (auto simp: construct_def Let_def throw_def split: prod.splits if_splits)
  then show t: "tracked m0 c = None" for c by (cases c) simp_all
  show "lifetime_inv (calls s0) s0 m0"
    unfolding lifetime_inv_def using t by (intro exI[of _ "[]"]) simp
qed

text \<open>What \<open>update_one\<close> returns or throws, from what the descriptor is open
  on, the content of that resource, and \<open>errno\<close> at the call.\<close>

lemma update_one_outcome:
  "snd (update_one s fd) =
     (case fd_path s fd of
        None \<Rightarrow> Inl (ERROR (Lseek_failed fd) EBADF)
      | Some p \<Rightarrow>
          (case resources s p of
             None \<Rightarrow> Inl (ERROR (Read_nothing (- 1) fd) ENODEV)
           | Some Directory \<Rightarrow> Inl (ERROR (Read_nothing (- 1) fd) EISDIR)
           | Some (Failing e) \<Rightarrow> Inl (ERROR (Read_nothing (- 1) fd) e)
           | Some (Text c) \<Rightarrow>
               (if READ_SIZE \<le> length c then Inl (RUNTIME (Read_full (int READ_SIZE) fd))
                else if c = [] then Inl (ERROR (Read_nothing 0 fd) (errno s))
                else if errno (fst (strtol s c)) \<noteq> 0 \<and> errno (fst (strtol s c)) \<noteq> EINTR
                then Inl (ERROR (Unable_to_convert (cstring c) fd) (errno (fst (strtol s c))))
                else Inr (word_of_int (fst (snd (strtol s c)))))))"
proof (cases "map_of (fdtab s) fd")
  case None
  then show ?thesis
    by (simp add: fd_path_def update_one_def update_one_read_def sys_lseek_def throw_def)
next
  case (Some po)
  obtain p off where po: "po = (p, off)" by (cases po)
  have fp: "fd_path s fd = Some p" using Some po by (simp add: fd_path_def)
  have after: "map_of (fdtab (called (Sys_lseek fd 0)
                  (s\<lparr>fdtab := AList.update fd (p, 0) (fdtab s)\<rparr>))) fd = Some (p, 0)"
    by (simp add: update_conv')
  show ?thesis
  proof (cases "resources s p")
    case None
    then show ?thesis using Some po fp after
      by (simp add: update_one_def update_one_read_def sys_lseek_def sys_read_def throw_def)
  next
    case (Some r)
    note res = this
    show ?thesis
    proof (cases r)
      case Directory
      then show ?thesis using \<open>map_of (fdtab s) fd = Some po\<close> po fp after res
        by (simp add: update_one_def update_one_read_def sys_lseek_def sys_read_def throw_def)
    next
      case (Failing e)
      then show ?thesis using \<open>map_of (fdtab s) fd = Some po\<close> po fp after res
        by (simp add: update_one_def update_one_read_def sys_lseek_def sys_read_def throw_def)
    next
      case (Text c)
      show ?thesis
      proof (cases "READ_SIZE \<le> length c")
        case True
        then have "min (length c) READ_SIZE = READ_SIZE" by simp
        then show ?thesis using \<open>map_of (fdtab s) fd = Some po\<close> po fp after res Text True
          by (simp add: update_one_def update_one_read_def sys_lseek_def sys_read_def throw_def
              Let_def)
      next
        case short: False
        show ?thesis
        proof (cases "c = []")
          case True
          then show ?thesis using \<open>map_of (fdtab s) fd = Some po\<close> po fp after res Text
            by (simp add: update_one_def update_one_read_def sys_lseek_def sys_read_def throw_def
                Let_def)
        next
          case False
          have t: "fd_text s fd = Some c" using fp res Text by (simp add: fd_text_def)
          have "0 < length c" "length c < READ_SIZE" using False short by simp_all
          from update_one_text(1)[OF t this] show ?thesis
            using fp res Text short False by simp
        qed
      qed
    qed
  qed
qed

lemma update_one_outcome_cong:
  assumes "same_world s s'" "errno s' = errno s"
  shows "snd (update_one s' fd) = snd (update_one s fd)"
proof -
  have n: "noconv_einval s' = noconv_einval s" "resources s' = resources s"
    "fd_path s' = fd_path s"
    using assms(1) by (simp_all add: same_world_def)
  have e: "errno (fst (strtol s' c)) = errno (fst (strtol s c))" for c
    by (rule strtol_errno_cong[OF n(1) assms(2)])
  have v: "fst (snd (strtol s' c)) = fst (snd (strtol s c))" for c
    using strtol_snd[of s' c s] by simp
  show ?thesis unfolding update_one_outcome n e v assms(2) ..
qed

lemma update_counters_first_failure:
  assumes "tracked m c = Some nd" "snd (update_one s (nd_fd nd)) = Inl e"
    and "c \<in> set cs" "distinct cs"
    and "\<forall>d \<in> set (takeWhile (\<lambda>x. x \<noteq> c) cs). \<forall>nd'. tracked m d = Some nd' \<longrightarrow>
           \<not> isl (snd (update_one s (nd_fd nd')))"
  shows "\<exists>s' m'. update_counters s m cs = (s', m', Some e)
          \<and> same_handles m m'
          \<and> (\<forall>d \<in> set (dropWhile (\<lambda>x. x \<noteq> c) cs). tracked m' d = tracked m d)
          \<and> (\<forall>d \<in> set (takeWhile (\<lambda>x. x \<noteq> c) cs). \<forall>nd'. tracked m d = Some nd' \<longrightarrow>
                tracked m' d = Some (nd'\<lparr>nd_value := projr (snd (update_one s (nd_fd nd')))\<rparr>))"
  using assms
proof (induction cs arbitrary: s m nd)
  case Nil
  then show ?case by simp
next
  case (Cons d rest)
  show ?case
  proof (cases "d = c")
    case True
    obtain s1 where u: "update_one s (nd_fd nd) = (s1, Inl e)"
      using Cons.prems(2) by (cases "update_one s (nd_fd nd)") simp
    have "update_counters s m (d # rest) = (s1, m, Some e)"
      using True Cons.prems(1) u by simp
    then show ?thesis using True by simp
  next
    case False
    then have in_rest: "c \<in> set rest" using Cons.prems(3) by simp
    have dr: "distinct rest" "d \<notin> set rest" using Cons.prems(4) by simp_all
    have tw: "takeWhile (\<lambda>x. x \<noteq> c) (d # rest) = d # takeWhile (\<lambda>x. x \<noteq> c) rest"
      and dw: "dropWhile (\<lambda>x. x \<noteq> c) (d # rest) = dropWhile (\<lambda>x. x \<noteq> c) rest"
      using False by simp_all
    have sub_t: "set (takeWhile (\<lambda>x. x \<noteq> c) rest) \<subseteq> set rest" by (auto dest: set_takeWhileD)
    have sub_d: "set (dropWhile (\<lambda>x. x \<noteq> c) rest) \<subseteq> set rest" by (auto dest: set_dropWhileD)
    show ?thesis
    proof (cases "tracked m d")
      case None
      have hyp: "\<forall>x \<in> set (takeWhile (\<lambda>x. x \<noteq> c) rest). \<forall>nd'. tracked m x = Some nd' \<longrightarrow>
           \<not> isl (snd (update_one s (nd_fd nd')))"
        using Cons.prems(5) unfolding tw by simp
      from Cons.IH[OF Cons.prems(1,2) in_rest dr(1) hyp] obtain s' m' where
        r: "update_counters s m rest = (s', m', Some e)" "same_handles m m'"
          "\<forall>x \<in> set (dropWhile (\<lambda>x. x \<noteq> c) rest). tracked m' x = tracked m x"
          "\<forall>x \<in> set (takeWhile (\<lambda>x. x \<noteq> c) rest). \<forall>nd'. tracked m x = Some nd' \<longrightarrow>
                tracked m' x = Some (nd'\<lparr>nd_value := projr (snd (update_one s (nd_fd nd')))\<rparr>)"
        by blast
      have "update_counters s m (d # rest) = (s', m', Some e)" using None r(1) by simp
      moreover have "\<forall>x \<in> set (takeWhile (\<lambda>x. x \<noteq> c) (d # rest)). \<forall>nd'. tracked m x = Some nd' \<longrightarrow>
                tracked m' x = Some (nd'\<lparr>nd_value := projr (snd (update_one s (nd_fd nd')))\<rparr>)"
        unfolding tw using r(4) None by simp
      ultimately show ?thesis using r(2,3) unfolding dw by blast
    next
      case (Some ndd)
      have "\<not> isl (snd (update_one s (nd_fd ndd)))"
        using Cons.prems(5) Some unfolding tw by simp
      then obtain s1 v where u: "update_one s (nd_fd ndd) = (s1, Inr v)"
        by (cases "update_one s (nd_fd ndd)"; cases "snd (update_one s (nd_fd ndd))") auto
      let ?m1 = "store m d (ndd\<lparr>nd_value := v\<rparr>)"
      note w1 = update_one_same_world[OF u]
      have e1: "errno s1 = errno s" using update_one_returns(1)[OF u] .
      have cg: "snd (update_one s1 k) = snd (update_one s k)" for k
        by (rule update_one_outcome_cong[OF w1 e1])
      have t1: "tracked ?m1 c = Some nd" using False Cons.prems(1) by simp
      have f1: "snd (update_one s1 (nd_fd nd)) = Inl e" using cg Cons.prems(2) by simp
      have hyp: "\<forall>x \<in> set (takeWhile (\<lambda>x. x \<noteq> c) rest). \<forall>nd'. tracked ?m1 x = Some nd' \<longrightarrow>
           \<not> isl (snd (update_one s1 (nd_fd nd')))"
      proof (intro ballI allI impI)
        fix x nd' assume x: "x \<in> set (takeWhile (\<lambda>x. x \<noteq> c) rest)"
          and t: "tracked ?m1 x = Some nd'"
        have "x \<noteq> d" using x sub_t dr(2) by auto
        then have "tracked m x = Some nd'" using t by simp
        then show "\<not> isl (snd (update_one s1 (nd_fd nd')))"
          using Cons.prems(5) x cg unfolding tw by simp
      qed
      from Cons.IH[OF t1 f1 in_rest dr(1) hyp] obtain s' m' where
        r: "update_counters s1 ?m1 rest = (s', m', Some e)" "same_handles ?m1 m'"
          "\<forall>x \<in> set (dropWhile (\<lambda>x. x \<noteq> c) rest). tracked m' x = tracked ?m1 x"
          "\<forall>x \<in> set (takeWhile (\<lambda>x. x \<noteq> c) rest). \<forall>nd'. tracked ?m1 x = Some nd' \<longrightarrow>
                tracked m' x = Some (nd'\<lparr>nd_value := projr (snd (update_one s1 (nd_fd nd')))\<rparr>)"
        by blast
      have a: "update_counters s m (d # rest) = (s', m', Some e)" using Some u r(1) by simp
      have b: "same_handles m m'"
        using same_handles_store[OF Some, of v] r(2) same_handles_trans by blast
      have c': "\<forall>x \<in> set (dropWhile (\<lambda>x. x \<noteq> c) (d # rest)). tracked m' x = tracked m x"
      proof
        fix x assume "x \<in> set (dropWhile (\<lambda>x. x \<noteq> c) (d # rest))"
        then have x: "x \<in> set (dropWhile (\<lambda>x. x \<noteq> c) rest)" unfolding dw .
        then have "x \<noteq> d" using sub_d dr(2) by auto
        then show "tracked m' x = tracked m x" using r(3) x by simp
      qed
      have keep_d: "tracked m' d = tracked ?m1 d"
        using update_counters_frame[OF r(1)] dr(2) by blast
      have d': "\<forall>x \<in> set (takeWhile (\<lambda>x. x \<noteq> c) (d # rest)). \<forall>nd'. tracked m x = Some nd' \<longrightarrow>
                tracked m' x = Some (nd'\<lparr>nd_value := projr (snd (update_one s (nd_fd nd')))\<rparr>)"
      proof (intro ballI allI impI)
        fix x nd' assume x: "x \<in> set (takeWhile (\<lambda>x. x \<noteq> c) (d # rest))"
          and t: "tracked m x = Some nd'"
        show "tracked m' x = Some (nd'\<lparr>nd_value := projr (snd (update_one s (nd_fd nd')))\<rparr>)"
        proof (cases "x = d")
          case True
          then have "nd' = ndd" using t Some by simp
          then show ?thesis using True keep_d u by simp
        next
          case xd: False
          then have xr: "x \<in> set (takeWhile (\<lambda>x. x \<noteq> c) rest)" using x unfolding tw by simp
          have "tracked ?m1 x = Some nd'" using xd t by simp
          then show ?thesis using r(4) xr cg by simp
        qed
      qed
      show ?thesis using a b c' d' by blast
    qed
  qed
qed

lemma arrives_atD:
  "arrives_at s m c \<Longrightarrow> d \<in> set (visited_before c) \<Longrightarrow> tracked m d = Some nd \<Longrightarrow>
     \<not> isl (snd (update_one s (nd_fd nd)))"
  by (auto simp: arrives_at_def list_all_iff split: option.splits)

lemma visited_before_rx:
  "takeWhile (\<lambda>x. x \<noteq> Rx k) (map Rx all_rx_fields) = visited_before (Rx k)"
proof -
  have "k \<in> set all_rx_fields" by (cases k) (simp_all add: all_rx_fields_def)
  then have "Rx k \<in> set (map Rx all_rx_fields)" by simp
  then show ?thesis
    unfolding visited_before_def all_counters_def by (simp add: takeWhile_append1)
qed

lemma visited_before_tx:
  "set (takeWhile (\<lambda>x. x \<noteq> Tx k) (map Tx all_tx_fields)) \<subseteq> set (visited_before (Tx k))"
proof -
  have "\<forall>x \<in> set (map Rx all_rx_fields). x \<noteq> Tx k" by auto
  then have "visited_before (Tx k) =
      map Rx all_rx_fields @ takeWhile (\<lambda>x. x \<noteq> Tx k) (map Tx all_tx_fields)"
    unfolding visited_before_def all_counters_def by (intro takeWhile_append2) blast
  then show ?thesis by simp
qed

lemma update_all_first_failure:
  assumes "tracked m c = Some nd" "arrives_at s m c" "snd (update_one s (nd_fd nd)) = Inl e"
  shows "\<exists>s' m'. update_all s m = (s', m', Some e)
          \<and> same_handles m m'
          \<and> (\<forall>d \<in> set (visited_from c). tracked m' d = tracked m d \<and> snapshot m' d = snapshot m d)
          \<and> (\<forall>d \<in> set (visited_before c). \<forall>nd'. tracked m d = Some nd' \<longrightarrow>
                snd (update_one s (nd_fd nd')) = Inr (snapshot m' d))"
proof -
  have hyp: "\<forall>d \<in> set (takeWhile (\<lambda>x. x \<noteq> c) all_counters). \<forall>nd'. tracked m d = Some nd' \<longrightarrow>
           \<not> isl (snd (update_one s (nd_fd nd')))"
    using arrives_atD[OF assms(2)] unfolding visited_before_def by blast
  from update_counters_first_failure[OF assms(1,3) all_counters_complete distinct_all_counters hyp]
  obtain s' m' where
    r: "update_counters s m all_counters = (s', m', Some e)" "same_handles m m'"
      "\<forall>d \<in> set (visited_from c). tracked m' d = tracked m d"
      "\<forall>d \<in> set (visited_before c). \<forall>nd'. tracked m d = Some nd' \<longrightarrow>
          tracked m' d = Some (nd'\<lparr>nd_value := projr (snd (update_one s (nd_fd nd')))\<rparr>)"
    unfolding visited_before_def visited_from_def by blast
  have a: "\<forall>d \<in> set (visited_from c). tracked m' d = tracked m d \<and> snapshot m' d = snapshot m d"
    using r(3) by (simp add: snapshot_tracked)
  have b: "\<forall>d \<in> set (visited_before c). \<forall>nd'. tracked m d = Some nd' \<longrightarrow>
                snd (update_one s (nd_fd nd')) = Inr (snapshot m' d)"
  proof (intro ballI allI impI)
    fix d nd' assume d: "d \<in> set (visited_before c)" and t: "tracked m d = Some nd'"
    have "\<not> isl (snd (update_one s (nd_fd nd')))" by (rule arrives_atD[OF assms(2) d t])
    moreover have "snapshot m' d = projr (snd (update_one s (nd_fd nd')))"
      using r(4) d t by (simp add: snapshot_tracked)
    ultimately show "snd (update_one s (nd_fd nd')) = Inr (snapshot m' d)"
      by (cases "snd (update_one s (nd_fd nd'))") simp_all
  qed
  show ?thesis using r(1,2) a b unfolding update_all_counters by blast
qed

lemma update_receive_first_failure:
  assumes "tracked m (Rx k) = Some nd" "arrives_at s m (Rx k)"
    and "snd (update_one s (nd_fd nd)) = Inl e"
  shows "\<exists>s' m'. update_receive_data s m = (s', m', Some e)
           \<and> tracked m' (Rx k) = tracked m (Rx k)"
proof -
  have hyp: "\<forall>d \<in> set (takeWhile (\<lambda>x. x \<noteq> Rx k) (map Rx all_rx_fields)).
      \<forall>nd'. tracked m d = Some nd' \<longrightarrow> \<not> isl (snd (update_one s (nd_fd nd')))"
    using arrives_atD[OF assms(2)] unfolding visited_before_rx by blast
  have "k \<in> set all_rx_fields" by (cases k) (simp_all add: all_rx_fields_def)
  then have mem: "Rx k \<in> set (map Rx all_rx_fields)" by simp
  have dist: "distinct (map Rx all_rx_fields)"
    by (simp add: all_rx_fields_def distinct_map inj_on_def)
  from update_counters_first_failure[OF assms(1,3) mem dist hyp] obtain s' m' where
    r: "update_counters s m (map Rx all_rx_fields) = (s', m', Some e)"
      "\<forall>d \<in> set (dropWhile (\<lambda>x. x \<noteq> Rx k) (map Rx all_rx_fields)). tracked m' d = tracked m d"
    by blast
  have "Rx k \<in> set (dropWhile (\<lambda>x. x \<noteq> Rx k) (map Rx all_rx_fields))"
    using mem by (metis (mono_tags, lifting) dropWhile_eq_Nil_conv hd_dropWhile hd_in_set)
  then show ?thesis using r unfolding update_receive_counters by blast
qed

lemma update_transmit_first_failure:
  assumes "tracked m (Tx k) = Some nd" "arrives_at s m (Tx k)"
    and "snd (update_one s (nd_fd nd)) = Inl e"
  shows "\<exists>s' m'. update_transmit_data s m = (s', m', Some e)
           \<and> tracked m' (Tx k) = tracked m (Tx k)"
proof -
  have hyp: "\<forall>d \<in> set (takeWhile (\<lambda>x. x \<noteq> Tx k) (map Tx all_tx_fields)).
      \<forall>nd'. tracked m d = Some nd' \<longrightarrow> \<not> isl (snd (update_one s (nd_fd nd')))"
    using arrives_atD[OF assms(2)] visited_before_tx[of k] by blast
  have "k \<in> set all_tx_fields" by (cases k) (simp_all add: all_tx_fields_def)
  then have mem: "Tx k \<in> set (map Tx all_tx_fields)" by simp
  have dist: "distinct (map Tx all_tx_fields)"
    by (simp add: all_tx_fields_def distinct_map inj_on_def)
  from update_counters_first_failure[OF assms(1,3) mem dist hyp] obtain s' m' where
    r: "update_counters s m (map Tx all_tx_fields) = (s', m', Some e)"
      "\<forall>d \<in> set (dropWhile (\<lambda>x. x \<noteq> Tx k) (map Tx all_tx_fields)). tracked m' d = tracked m d"
    by blast
  have "Tx k \<in> set (dropWhile (\<lambda>x. x \<noteq> Tx k) (map Tx all_tx_fields))"
    using mem by (metis (mono_tags, lifting) dropWhile_eq_Nil_conv hd_dropWhile hd_in_set)
  then show ?thesis using r unfolding update_transmit_counters by blast
qed

lemma visited_from_self: "c \<in> set (visited_from c)"
  unfolding visited_from_def using all_counters_complete[of c]
  by (metis (mono_tags, lifting) dropWhile_eq_Nil_conv hd_dropWhile hd_in_set)

subsection \<open>The terminator stays inside the buffer\<close>

text \<open>C9. \<open>update_one\<close> writes the terminator at index \<open>r_ret\<close> exactly when
  the first part of the function (rewind, read, the two checks) has not
  thrown. Whenever that part hands over \<open>r_ret\<close> and the buffer, \<open>r_ret\<close>
  is above 0 and below 32, and the index is inside the 32 bytes of the
  buffer.\<close>

theorem terminator_write_in_bounds:
  assumes "update_one_read s fd = (s2, Inr (r_ret, rbuf))"
  shows "0 < r_ret \<and> r_ret < int READ_SIZE \<and> length rbuf = READ_SIZE
         \<and> nat r_ret < length rbuf"
proof -
  from assms obtain data where
    "0 < r_ret" "r_ret < int READ_SIZE"
    "rbuf = data @ replicate (READ_SIZE - length data) stack_garbage"
    "r_ret = int (length data)"
    by (cases rule: update_one_read_cases) (auto dest: sys_read_le)
  then show ?thesis by auto
qed

theorem terminator_write_in_bounds_witness:
  "\<exists>s2 rbuf. update_one_read (fst (monitor_of {RX_BYTES} {})) 3 = (s2, Inr (6, rbuf))
     \<and> (0::int) < 6 \<and> (6::int) < int READ_SIZE \<and> length rbuf = READ_SIZE
     \<and> nat 6 < length rbuf"
proof -
  obtain s2 r where u: "update_one_read (fst (monitor_of {RX_BYTES} {})) 3 = (s2, r)"
    by (cases "update_one_read (fst (monitor_of {RX_BYTES} {})) 3")
  have "snd (update_one_read (fst (monitor_of {RX_BYTES} {})) 3)
          = Inr (6, ''12345\<newline>'' @ replicate 26 stack_garbage)"
    by code_simp
  with u have u': "update_one_read (fst (monitor_of {RX_BYTES} {})) 3
          = (s2, Inr (6, ''12345\<newline>'' @ replicate 26 stack_garbage))"
    by simp
  from terminator_write_in_bounds[OF u'] u' show ?thesis by blast
qed

subsection \<open>The two checks on the number of bytes read\<close>

text \<open>When the rewind has succeeded and \<open>read\<close> returns exactly
  \<open>READ_SIZE\<close> = 32, \<open>update_one\<close> throws through \<open>RUNTIME\<close>; nothing is
  converted. When \<open>read\<close> returns 0 or less, it throws through \<open>ERROR\<close>, with
  the value of \<open>errno\<close>. In both cases the loop of \<open>update_receive_data\<close> or
  \<open>update_transmit_data\<close> that has arrived at a counter with this descriptor
  ends with that exception and leaves the object as it is.\<close>

lemma update_one_length_checks:
  assumes "sys_lseek s fd 0 = (s1, ret)" "ret \<noteq> - 1"
    and "sys_read s1 fd READ_SIZE = (s2, r_ret, data)"
  shows
    "(r_ret = int READ_SIZE \<longrightarrow>
        update_one s fd =
          (print (Vprint (RUNTIME (Read_full r_ret fd))) s2, Inl (RUNTIME (Read_full r_ret fd))))
     \<and> (r_ret \<le> 0 \<longrightarrow>
        update_one s fd =
          (print (Vprint (ERROR (Read_nothing r_ret fd) (errno s2))) s2,
           Inl (ERROR (Read_nothing r_ret fd) (errno s2))))
     \<and> (r_ret = int READ_SIZE \<or> r_ret \<le> 0 \<longrightarrow>
          (\<forall>m k nd rest. rx_to_update m k = Some nd \<and> nd_fd nd = fd \<longrightarrow>
             update_rx_loop s m (k # rest) =
               (fst (update_one s fd), m, Some (projl (snd (update_one s fd)))))
        \<and> (\<forall>m k nd rest. tx_to_update m k = Some nd \<and> nd_fd nd = fd \<longrightarrow>
             update_tx_loop s m (k # rest) =
               (fst (update_one s fd), m, Some (projl (snd (update_one s fd))))))"
proof -
  have full: "update_one s fd =
      (print (Vprint (RUNTIME (Read_full r_ret fd))) s2, Inl (RUNTIME (Read_full r_ret fd)))"
    if "r_ret = int READ_SIZE"
    using assms that by (simp add: update_one_def update_one_read_def throw_def)
  have none: "update_one s fd =
      (print (Vprint (ERROR (Read_nothing r_ret fd) (errno s2))) s2,
       Inl (ERROR (Read_nothing r_ret fd) (errno s2)))"
    if "r_ret \<le> 0"
    using assms that by (simp add: update_one_def update_one_read_def throw_def)
  have thrown: "snd (update_one s fd) = Inl (projl (snd (update_one s fd)))"
    if "r_ret = int READ_SIZE \<or> r_ret \<le> 0"
    using that full none by auto
  have rx: "update_rx_loop s m (k # rest) =
      (fst (update_one s fd), m, Some (projl (snd (update_one s fd))))"
    if "r_ret = int READ_SIZE \<or> r_ret \<le> 0" "rx_to_update m k = Some nd" "nd_fd nd = fd"
    for m k nd rest
    using update_rx_loop_throws[of m k nd s] thrown that by simp
  have tx: "update_tx_loop s m (k # rest) =
      (fst (update_one s fd), m, Some (projl (snd (update_one s fd))))"
    if "r_ret = int READ_SIZE \<or> r_ret \<le> 0" "tx_to_update m k = Some nd" "nd_fd nd = fd"
    for m k nd rest
    using update_tx_loop_throws[of m k nd s] thrown that by simp
  show ?thesis using full none rx tx by blast
qed

text \<open>C4. Let a call of \<open>update_all\<close> arrive at a tracked counter \<open>c\<close>: the
  counters visited before \<open>c\<close> are read without an exception. Let the rewind
  of the descriptor of \<open>c\<close> succeed and let \<open>read\<close> return \<open>r_ret\<close> (the rewind
  and the read taken in the state at the call: the updates of the counters
  visited before \<open>c\<close> change neither the resources nor \<open>errno\<close>). If \<open>r_ret\<close>
  is exactly \<open>READ_SIZE\<close> = 32, \<open>update_one\<close> throws through \<open>RUNTIME\<close>, the
  macro that does not attach \<open>strerror(errno)\<close>, and \<open>update_all\<close> ends with
  that exception. If \<open>r_ret\<close> is 0 or less, \<open>update_one\<close> throws through
  \<open>ERROR\<close>, the macro for failures of the operating system, with the value of
  \<open>errno\<close>, and \<open>update_all\<close> ends with that exception. So does
  \<open>update_receive_data\<close> for a receive counter and \<open>update_transmit_data\<close> for
  a transmit counter. In every case the entry of \<open>c\<close> is as it was: the bytes
  read are not accepted as a number.\<close>

theorem length_check_aborts_update:
  assumes "tracked m c = Some nd" "arrives_at s m c"
    and "sys_lseek s (nd_fd nd) 0 = (s1, ret)" "ret \<noteq> - 1"
    and "sys_read s1 (nd_fd nd) READ_SIZE = (s2, r_ret, data)"
    and "r_ret = int READ_SIZE \<and> e = RUNTIME (Read_full r_ret (nd_fd nd))
         \<or> r_ret \<le> 0 \<and> e = ERROR (Read_nothing r_ret (nd_fd nd)) (errno s2)"
  shows "snd (update_one s (nd_fd nd)) = Inl e
         \<and> (\<exists>s' m'. update_all s m = (s', m', Some e) \<and> tracked m' c = tracked m c)
         \<and> (\<forall>k. c = Rx k \<longrightarrow>
               (\<exists>s' m'. update_receive_data s m = (s', m', Some e)
                  \<and> tracked m' c = tracked m c))
         \<and> (\<forall>k. c = Tx k \<longrightarrow>
               (\<exists>s' m'. update_transmit_data s m = (s', m', Some e)
                  \<and> tracked m' c = tracked m c))"
proof -
  have thrown: "snd (update_one s (nd_fd nd)) = Inl e"
    using update_one_length_checks[OF assms(3,4,5)] assms(6) by auto
  have a: "\<exists>s' m'. update_all s m = (s', m', Some e) \<and> tracked m' c = tracked m c"
    using update_all_first_failure[OF assms(1,2) thrown] visited_from_self[of c] by blast
  have b: "\<exists>s' m'. update_receive_data s m = (s', m', Some e) \<and> tracked m' c = tracked m c"
    if "c = Rx k" for k
    using update_receive_first_failure[of m k nd s e] assms(1,2) thrown that by simp
  have d: "\<exists>s' m'. update_transmit_data s m = (s', m', Some e) \<and> tracked m' c = tracked m c"
    if "c = Tx k" for k
    using update_transmit_first_failure[of m k nd s e] assms(1,2) thrown that by simp
  show ?thesis using thrown a b d by blast
qed

theorem length_check_aborts_update_witness:
  "fd_text (fst (monitor_of {RX_DROPPED} {})) 3 = Some (replicate 32 CHR ''7'')
   \<and> snd (snd (update_all (fst (monitor_of {RX_DROPPED} {})) (snd (monitor_of {RX_DROPPED} {}))))
        = Some (RUNTIME (Read_full (int READ_SIZE) 3))
   \<and> snd (snd (update_receive_data (fst (monitor_of {RX_DROPPED} {}))
                                    (snd (monitor_of {RX_DROPPED} {}))))
        = Some (RUNTIME (Read_full (int READ_SIZE) 3))
   \<and> snapshot (fst (snd (update_all (fst (monitor_of {RX_DROPPED} {}))
                                     (snd (monitor_of {RX_DROPPED} {})))))
        (Rx RX_DROPPED) = 0"
proof -
  let ?S = "fst (monitor_of {RX_DROPPED} {})"
  let ?M = "snd (monitor_of {RX_DROPPED} {})"
  let ?nd = "\<lparr>nd_value = 0, nd_fd = 3\<rparr>"
  have t: "tracked ?M (Rx RX_DROPPED) = Some ?nd" by code_simp
  have ar: "arrives_at ?S ?M (Rx RX_DROPPED)" by code_simp
  have ft: "fd_text ?S 3 = Some (replicate 32 CHR ''7'')" by code_simp
  obtain s1 ret where l: "sys_lseek ?S (nd_fd ?nd) 0 = (s1, ret)"
    by (cases "sys_lseek ?S (nd_fd ?nd) 0")
  obtain s2 n data where r: "sys_read s1 (nd_fd ?nd) READ_SIZE = (s2, n, data)"
    by (cases "sys_read s1 (nd_fd ?nd) READ_SIZE") auto
  have "snd (sys_lseek ?S 3 0) = 0" by code_simp
  with l have ne: "ret \<noteq> - 1" by simp
  have "fst (snd (sys_read (fst (sys_lseek ?S 3 0)) 3 READ_SIZE)) = 32" by code_simp
  with l r have n: "n = int READ_SIZE" by simp
  have e: "n = int READ_SIZE
             \<and> RUNTIME (Read_full (int READ_SIZE) 3) = RUNTIME (Read_full n (nd_fd ?nd))
      \<or> n \<le> 0
             \<and> RUNTIME (Read_full (int READ_SIZE) 3)
                 = ERROR (Read_nothing n (nd_fd ?nd)) (errno s2)"
    using n by simp
  note h = length_check_aborts_update[OF t ar l ne r e]
  from h obtain s' m' where
    u: "update_all ?S ?M = (s', m', Some (RUNTIME (Read_full (int READ_SIZE) 3)))"
      "tracked m' (Rx RX_DROPPED) = tracked ?M (Rx RX_DROPPED)"
    by blast
  from h obtain s'' m'' where
    v: "update_receive_data ?S ?M = (s'', m'', Some (RUNTIME (Read_full (int READ_SIZE) 3)))"
    by blast
  have z: "snapshot m' (Rx RX_DROPPED) = 0" using u(2) t by (simp add: snapshot_tracked)
  show ?thesis using ft u(1) v z by simp
qed

subsection \<open>Reading a counter\<close>

text \<open>Let a counter of either direction be tracked, with its descriptor open
  on a resource that holds the text "12345" followed by a newline, and let
  \<open>update_all\<close> be called. If the call returns without an exception, the
  member of the snapshot for that counter is 12345 afterwards, and the call
  has rewound the descriptor (\<open>lseek\<close> to offset 0) and then read the 6
  bytes of the resource, wherever the offset was before. The call does return
  without an exception when \<open>errno\<close> is 0 or \<open>EINTR\<close> at the call and every
  tracked counter is readable.\<close>

lemma update_reads_12345:
  assumes "tracked m c = Some nd"
    and "fd_text s (nd_fd nd) = Some ''12345\<newline>''"
    and "update_all s m = (s', m', r)"
  shows "(r = None \<longrightarrow>
            snapshot m' c = 12345
            \<and> (\<exists>pre post. calls s' =
                  calls s @ pre @ [Sys_lseek (nd_fd nd) 0, Sys_read (nd_fd nd) 6] @ post))
         \<and> ((errno s = 0 \<or> errno s = EINTR) \<and> all_readable s m \<longrightarrow> r = None)"
proof -
  have v: "fst (snd (strtol s ''12345\<newline>'')) = 12345"
    by (simp add: strtol_def cstring_def isspace_def isdigit_def digits_value_def digit_val_def)
  have "snapshot m' c = 12345
      \<and> (\<exists>pre post. calls s' =
            calls s @ pre @ [Sys_lseek (nd_fd nd) 0, Sys_read (nd_fd nd) 6] @ post)"
    if "r = None"
    using update_all_value[OF assms(3)[unfolded that] assms(1,2)] v by simp
  moreover have "r = None" if "(errno s = 0 \<or> errno s = EINTR) \<and> all_readable s m"
    using update_all_succeeds[of s m] that assms(3) by auto
  ultimately show ?thesis by blast
qed

text \<open>An instance where \<open>errno\<close> is 0 at the call: both directions track
  their byte counter, and \<open>rx_bytes\<close> holds "12345".\<close>

lemma update_reads_12345_example:
  "snd (snd (update_all (fst (monitor_of {RX_BYTES} {TX_BYTES}))
                        (snd (monitor_of {RX_BYTES} {TX_BYTES})))) = None
   \<and> snapshot (fst (snd (update_all (fst (monitor_of {RX_BYTES} {TX_BYTES}))
                                     (snd (monitor_of {RX_BYTES} {TX_BYTES})))))
        (Rx RX_BYTES) = 12345"
  by code_simp

lemma update_all_converted:
  assumes "update_all s m = (s', m', None)" "tracked m c = Some nd"
    and "fd_text s (nd_fd nd) = Some cnt" "0 < length cnt" "length cnt < READ_SIZE"
  shows "errno (fst (strtol s cnt)) = 0 \<or> errno (fst (strtol s cnt)) = EINTR"
  using update_counters_converted[OF assms(1)[unfolded update_all_counters]
      all_counters_complete assms(2-5)] .

text \<open>\<open>update_one\<close> does not clear \<open>errno\<close> before it calls \<open>strtol\<close>: when
  \<open>errno\<close> holds an error number other than \<open>EINTR\<close> at the call, left there
  by any earlier call that failed, \<open>update_one\<close> throws whatever the resource
  holds.\<close>

lemma update_one_stale_errno:
  assumes "errno s \<noteq> 0" "errno s \<noteq> EINTR"
  shows "isl (snd (update_one s fd))"
proof (cases "update_one s fd")
  case (Pair s' r)
  then show ?thesis using update_one_returns(2)[of s fd s'] assms by (cases r) auto
qed

text \<open>An instance: \<open>rx_compressed\<close> does not exist, so the call of
  \<open>set_rx_stats_to_update\<close> opens \<open>rx_bytes\<close>, fails on \<open>rx_compressed\<close> and
  leaves \<open>ENOENT\<close> in \<open>errno\<close>; the next \<open>update_all\<close> reads "12345" from
  \<open>rx_bytes\<close> and throws.\<close>

lemma update_after_failed_open:
  "snd (snd (update_all (fst (monitor_of {RX_BYTES, RX_COMPRESSED} {}))
                        (snd (monitor_of {RX_BYTES, RX_COMPRESSED} {}))))
     = Some (ERROR (Unable_to_convert ''12345\<newline>'' 3) ENOENT)"
  by code_simp

text \<open>C1 does not hold of the code. A client asks for \<open>RX_BYTES\<close> and
  \<open>RX_COMPRESSED\<close> on an interface that has no \<open>rx_compressed\<close>:
  \<open>set_rx_stats_to_update\<close> opens \<open>rx_bytes\<close> on descriptor 3, fails to open
  \<open>rx_compressed\<close> and throws, and the client catches the exception. The
  object tracks \<open>RX_BYTES\<close>, the resource holds "12345" and a newline, every
  tracked counter is readable, and \<open>errno\<close> still holds \<open>ENOENT\<close> from the
  failed \<open>open\<close>. \<open>update_one\<close> rewinds, reads the 6 bytes and calls \<open>strtol\<close>,
  which converts them to 12345 and leaves \<open>errno\<close> alone; \<open>update_one\<close> has not
  cleared \<open>errno\<close> before the call and takes the \<open>ENOENT\<close> it finds there for
  a failed conversion. \<open>update_all\<close> ends with that exception, and the
  snapshot member of \<open>RX_BYTES\<close> is 0, not 12345.\<close>

theorem update_rejects_12345_after_failed_open:
  "tracked (snd (monitor_of {RX_BYTES, RX_COMPRESSED} {})) (Rx RX_BYTES)
      = Some \<lparr>nd_value = 0, nd_fd = 3\<rparr>
   \<and> fd_text (fst (monitor_of {RX_BYTES, RX_COMPRESSED} {})) 3 = Some ''12345\<newline>''
   \<and> all_readable (fst (monitor_of {RX_BYTES, RX_COMPRESSED} {}))
                   (snd (monitor_of {RX_BYTES, RX_COMPRESSED} {}))
   \<and> errno (fst (monitor_of {RX_BYTES, RX_COMPRESSED} {})) = ENOENT
   \<and> snd (strtol (fst (monitor_of {RX_BYTES, RX_COMPRESSED} {})) ''12345\<newline>'') = (12345, 5)
   \<and> snd (snd (update_all (fst (monitor_of {RX_BYTES, RX_COMPRESSED} {}))
                          (snd (monitor_of {RX_BYTES, RX_COMPRESSED} {}))))
       = Some (ERROR (Unable_to_convert ''12345\<newline>'' 3) ENOENT)
   \<and> snapshot (fst (snd (update_all (fst (monitor_of {RX_BYTES, RX_COMPRESSED} {}))
                                     (snd (monitor_of {RX_BYTES, RX_COMPRESSED} {})))))
        (Rx RX_BYTES) = 0"
  by code_simp

text \<open>Let a tracked counter have its descriptor open on a resource that
  holds a minus sign, the decimal digits of \<open>n\<close> and a newline, with
  \<open>0 < n \<le> 2^63\<close> (for instance "-5"). \<open>strtol\<close> converts the text to
  \<open>- n\<close> and reports no error. If \<open>update_all\<close> returns without an exception,
  the snapshot member of the counter is the 64-bit value \<open>2^64 - n\<close>. The
  call does return without an exception when \<open>errno\<close> is 0 or \<open>EINTR\<close> at the
  call and every tracked counter is readable.\<close>

lemma negative_text_wraps_around:
  assumes "tracked m c = Some nd"
    and "fd_text s (nd_fd nd) = Some (CHR ''-'' # decimal n @ ''\<newline>'')"
    and "0 < n" "n \<le> 2 ^ 63"
    and "update_all s m = (s', m', r)"
  shows "strtol s (CHR ''-'' # decimal n @ ''\<newline>'') = (s, - int n, 1 + length (decimal n))
         \<and> (r = None \<longrightarrow>
               snapshot m' c = word_of_int (- int n) \<and> unat (snapshot m' c) = 2 ^ 64 - n)
         \<and> ((errno s = 0 \<or> errno s = EINTR) \<and> all_readable s m \<longrightarrow> r = None)"
proof -
  let ?cnt = "CHR ''-'' # decimal n @ ''\<newline>''"
  have st: "strtol s ?cnt = (s, - int n, 1 + length (decimal n))"
    using strtol_minus_decimal[of "''\<newline>''" s n] assms(4) by simp
  have "length (decimal n) \<le> 19" using assms(4) by (intro length_decimal) simp_all
  then have len: "0 < length ?cnt" "length ?cnt < READ_SIZE" by simp_all
  have "snapshot m' c = word_of_int (- int n) \<and> unat (snapshot m' c) = 2 ^ 64 - n"
    if "r = None"
    using update_all_value(1)[OF assms(5)[unfolded that] assms(1,2) len] st
      unat_word_of_neg[OF assms(3,4)]
    by simp
  moreover have "r = None" if "(errno s = 0 \<or> errno s = EINTR) \<and> all_readable s m"
    using update_all_succeeds[of s m] that assms(5) by auto
  ultimately show ?thesis using st by blast
qed

text \<open>An instance where \<open>errno\<close> is 0 at the call: \<open>tx_bytes\<close> holds "-5", and
  the snapshot reports \<open>2^64 - 5\<close>.\<close>

lemma negative_text_wraps_around_example:
  "snd (snd (update_all (fst (monitor_of {} {TX_BYTES})) (snd (monitor_of {} {TX_BYTES})))) = None
   \<and> snapshot (fst (snd (update_all (fst (monitor_of {} {TX_BYTES}))
                                     (snd (monitor_of {} {TX_BYTES})))))
        (Tx TX_BYTES) = 18446744073709551611"
  by code_simp

text \<open>C10 does not hold of the code. A client asks for the receive counter
  \<open>RX_COMPRESSED\<close>, which the interface does not have;
  \<open>set_rx_stats_to_update\<close> throws and the client catches the exception. It then asks for \<open>TX_BYTES\<close>, which is opened on descriptor 3
  and holds "-5" and a newline. Every tracked counter is readable, and
  \<open>errno\<close> still holds \<open>ENOENT\<close> from the failed \<open>open\<close>. \<open>strtol\<close> converts
  the text to \<open>- 5\<close>, consuming 2 bytes, and leaves \<open>errno\<close> alone;
  \<open>update_one\<close> takes the \<open>ENOENT\<close> it finds there for a failed conversion.
  \<open>update_all\<close> rejects the text: it ends with that exception, and the
  snapshot member of \<open>TX_BYTES\<close> is 0, not \<open>2^64 - 5\<close>.\<close>

theorem update_rejects_negative_after_failed_open:
  "tracked (snd (monitor_of {RX_COMPRESSED} {TX_BYTES})) (Tx TX_BYTES)
      = Some \<lparr>nd_value = 0, nd_fd = 3\<rparr>
   \<and> fd_text (fst (monitor_of {RX_COMPRESSED} {TX_BYTES})) 3 = Some ''-5\<newline>''
   \<and> all_readable (fst (monitor_of {RX_COMPRESSED} {TX_BYTES}))
                   (snd (monitor_of {RX_COMPRESSED} {TX_BYTES}))
   \<and> errno (fst (monitor_of {RX_COMPRESSED} {TX_BYTES})) = ENOENT
   \<and> snd (strtol (fst (monitor_of {RX_COMPRESSED} {TX_BYTES})) ''-5\<newline>'') = (- 5, 2)
   \<and> errno (fst (strtol (fst (monitor_of {RX_COMPRESSED} {TX_BYTES})) ''-5\<newline>'')) = ENOENT
   \<and> snd (snd (update_all (fst (monitor_of {RX_COMPRESSED} {TX_BYTES}))
                          (snd (monitor_of {RX_COMPRESSED} {TX_BYTES}))))
       = Some (ERROR (Unable_to_convert ''-5\<newline>'' 3) ENOENT)
   \<and> snapshot (fst (snd (update_all (fst (monitor_of {RX_COMPRESSED} {TX_BYTES}))
                                     (snd (monitor_of {RX_COMPRESSED} {TX_BYTES})))))
        (Tx TX_BYTES) = 0"
  by code_simp

lemma cstring_decimal_tail:
  assumes "tail = [] \<or> tail = ''\<newline>''"
  shows "cstring (decimal n @ tail) = decimal n @ tail"
proof (rule cstring_no_NUL)
  show "\<forall>ch \<in> set (decimal n @ tail). ch \<noteq> NUL"
    using assms decimal_no_NUL[of _ n] by auto
qed

text \<open>C5, as the code has it. Let a tracked counter have its descriptor open
  on a resource that holds the decimal representation of \<open>n\<close>, with or
  without a newline behind it. The text is converted with \<open>strtol\<close>, to a
  \<open>long\<close>. For \<open>n < 2^63\<close>, \<open>strtol\<close> returns \<open>n\<close> and reports no error, and
  whenever \<open>update_all\<close> returns without an exception the snapshot member of
  the counter is exactly \<open>n\<close> (the call does return so when every tracked
  counter is readable and no earlier failure has left an error number
  behind). For \<open>2^63 \<le> n < 2^64\<close>, a call of \<open>update_all\<close> that arrives at the
  counter ends with the exception for a failed conversion, with \<open>ERANGE\<close>,
  whatever \<open>errno\<close> was at the call, and the entry of the counter and what
  the snapshot reports for it are as they were before the call.\<close>

theorem decimal_text_within_long:
  assumes "tracked m c = Some nd"
    and "fd_text s (nd_fd nd) = Some (decimal n @ tail)"
    and "tail = [] \<or> tail = ''\<newline>''"
  shows "(n < 2 ^ 63 \<longrightarrow>
            strtol s (decimal n @ tail) = (s, int n, length (decimal n))
            \<and> (\<forall>s' m'. update_all s m = (s', m', None) \<longrightarrow> unat (snapshot m' c) = n)
            \<and> ((errno s = 0 \<or> errno s = EINTR) \<and> all_readable s m \<longrightarrow>
                  (\<exists>s' m'. update_all s m = (s', m', None))))
         \<and> (2 ^ 63 \<le> n \<and> n < 2 ^ 64 \<and> arrives_at s m c \<longrightarrow>
              (\<exists>s' m'. update_all s m =
                   (s', m', Some (ERROR (Unable_to_convert (decimal n @ tail) (nd_fd nd)) ERANGE))
                 \<and> tracked m' c = tracked m c \<and> snapshot m' c = snapshot m c))"
proof -
  let ?cnt = "decimal n @ tail"
  have pos: "0 < length ?cnt" using decimal_digits[of n] by simp
  have st_small: "strtol s ?cnt = (s, int n, length (decimal n))" if "n < 2 ^ 63"
    using strtol_decimal[OF assms(3), of s n] that by simp
  have small: "unat (snapshot m' c) = n"
    if "n < 2 ^ 63" "update_all s m = (s', m', None)" for s' m'
  proof -
    have "length (decimal n) \<le> 19" using that(1) by (intro length_decimal) simp_all
    then have len: "length ?cnt < READ_SIZE" using assms(3) by auto
    have "n < 2 ^ 64" using that(1) by simp
    then show ?thesis
      using update_all_value(1)[OF that(2) assms(1,2) pos len] st_small[OF that(1)]
        unat_word_of_nat64[of n]
      by simp
  qed
  have ok: "\<exists>s' m'. update_all s m = (s', m', None)"
    if "(errno s = 0 \<or> errno s = EINTR) \<and> all_readable s m"
    using update_all_succeeds[of s m] that by blast
  have large: "\<exists>s' m'. update_all s m =
                   (s', m', Some (ERROR (Unable_to_convert ?cnt (nd_fd nd)) ERANGE))
                 \<and> tracked m' c = tracked m c \<and> snapshot m' c = snapshot m c"
    if "2 ^ 63 \<le> n \<and> n < 2 ^ 64 \<and> arrives_at s m c"
  proof -
    have "length (decimal n) \<le> 20" using that by (intro length_decimal) simp_all
    then have len: "length ?cnt < READ_SIZE" using assms(3) by auto
    have st: "strtol s ?cnt = (s\<lparr>errno := ERANGE\<rparr>, LONG_MAX, length (decimal n))"
      using strtol_decimal[OF assms(3), of s n] that by simp
    from assms(2) obtain p where p: "fd_path s (nd_fd nd) = Some p"
      "resources s p = Some (Text ?cnt)"
      by (auto simp: fd_text_def split: option.splits resource.splits)
    have ne: "?cnt \<noteq> []" using pos by simp
    have thrown: "snd (update_one s (nd_fd nd)) =
        Inl (ERROR (Unable_to_convert ?cnt (nd_fd nd)) ERANGE)"
      unfolding update_one_outcome using p len ne st cstring_decimal_tail[OF assms(3), of n]
      by simp
    from update_all_first_failure[OF assms(1) _ thrown] that visited_from_self[of c]
    show ?thesis by blast
  qed
  show ?thesis using st_small small ok large by blast
qed

theorem decimal_text_within_long_witness:
  "decimal 12345 @ ''\<newline>'' = ''12345\<newline>'' \<and> (12345::nat) < 2 ^ 63
   \<and> snd (snd (update_all (fst (monitor_of {RX_BYTES} {})) (snd (monitor_of {RX_BYTES} {})))) = None
   \<and> unat (snapshot (fst (snd (update_all (fst (monitor_of {RX_BYTES} {}))
                                           (snd (monitor_of {RX_BYTES} {})))))
             (Rx RX_BYTES)) = 12345
   \<and> decimal (2 ^ 63) @ ''\<newline>'' = ''9223372036854775808\<newline>''
   \<and> snd (snd (update_all (fst (monitor_of {} {TX_PACKETS})) (snd (monitor_of {} {TX_PACKETS}))))
       = Some (ERROR (Unable_to_convert ''9223372036854775808\<newline>'' 3) ERANGE)
   \<and> snapshot (fst (snd (update_all (fst (monitor_of {} {TX_PACKETS}))
                                     (snd (monitor_of {} {TX_PACKETS})))))
        (Tx TX_PACKETS) = 0"
proof -
  let ?S = "fst (monitor_of {RX_BYTES} {})"
  let ?M = "snd (monitor_of {RX_BYTES} {})"
  let ?T = "fst (monitor_of {} {TX_PACKETS})"
  let ?N = "snd (monitor_of {} {TX_PACKETS})"
  let ?nd = "\<lparr>nd_value = 0, nd_fd = 3\<rparr>"
  have d: "decimal 12345 @ ''\<newline>'' = ''12345\<newline>''"
    by (simp add: decimal.simps digit_char_def)
  have t: "tracked ?M (Rx RX_BYTES) = Some ?nd" by code_simp
  have f: "fd_text ?S (nd_fd ?nd) = Some (decimal 12345 @ ''\<newline>'')"
    unfolding d by code_simp
  have tl: "''\<newline>'' = [] \<or> ''\<newline>'' = ''\<newline>''" by simp
  have clean: "errno ?S = 0 \<or> errno ?S = EINTR" by code_simp
  have ar: "all_readable ?S ?M" by code_simp
  have n: "(12345::nat) < 2 ^ 63" by simp
  from decimal_text_within_long[OF t f tl] clean ar n
  obtain s' m' where u: "update_all ?S ?M = (s', m', None)" by blast
  from decimal_text_within_long[OF t f tl] n u
  have v: "unat (snapshot m' (Rx RX_BYTES)) = 12345" by blast
  have e: "decimal (2 ^ 63) @ ''\<newline>'' = ''9223372036854775808\<newline>''"
    by (simp add: decimal.simps digit_char_def)
  have t2: "tracked ?N (Tx TX_PACKETS) = Some ?nd" by code_simp
  have f2: "fd_text ?T (nd_fd ?nd) = Some (decimal (2 ^ 63) @ ''\<newline>'')"
    unfolding e by code_simp
  have ar2: "arrives_at ?T ?N (Tx TX_PACKETS)" by code_simp
  have n2: "(2::nat) ^ 63 \<le> 2 ^ 63 \<and> (2::nat) ^ 63 < 2 ^ 64" by simp
  from decimal_text_within_long[OF t2 f2 tl] n2 ar2
  obtain s2 m2 where u2: "update_all ?T ?N =
        (s2, m2,
         Some (ERROR (Unable_to_convert (decimal (2 ^ 63) @ ''\<newline>'') (nd_fd ?nd)) ERANGE))"
      "tracked m2 (Tx TX_PACKETS) = tracked ?N (Tx TX_PACKETS)"
    by blast
  have z: "snapshot m2 (Tx TX_PACKETS) = 0" using u2(2) t2 by (simp add: snapshot_tracked)
  show ?thesis using d n u v e u2(1) z by simp
qed

text \<open>C5, as the claim has it, fails at \<open>2^63\<close>: the object tracks \<open>TX_PACKETS\<close>
  with the cached value 777, and the resource \<open>tx_packets\<close> holds the 19
  digits of \<open>2^63\<close> and a newline, 20 bytes. \<open>update_all\<close> does not succeed: it
  ends with the exception for a failed conversion, with \<open>ERANGE\<close>, and the
  counter still holds 777, not \<open>2^63\<close>.\<close>

theorem decimal_text_beyond_long_rejected:
  "fd_text (fst (monitor_of {} {TX_PACKETS})) 3 = Some (decimal (2 ^ 63) @ ''\<newline>'')
   \<and> length (decimal (2 ^ 63) @ ''\<newline>'') = 20
   \<and> snapshot (store (snd (monitor_of {} {TX_PACKETS})) (Tx TX_PACKETS)
                  \<lparr>nd_value = 777, nd_fd = 3\<rparr>) (Tx TX_PACKETS) = 777
   \<and> snd (snd (update_all (fst (monitor_of {} {TX_PACKETS}))
                 (store (snd (monitor_of {} {TX_PACKETS})) (Tx TX_PACKETS)
                    \<lparr>nd_value = 777, nd_fd = 3\<rparr>)))
       = Some (ERROR (Unable_to_convert ''9223372036854775808\<newline>'' 3) ERANGE)
   \<and> snapshot (fst (snd (update_all (fst (monitor_of {} {TX_PACKETS}))
                 (store (snd (monitor_of {} {TX_PACKETS})) (Tx TX_PACKETS)
                    \<lparr>nd_value = 777, nd_fd = 3\<rparr>)))) (Tx TX_PACKETS) = 777"
proof -
  have d: "decimal (2 ^ 63) @ ''\<newline>'' = ''9223372036854775808\<newline>''"
    by (simp add: decimal.simps digit_char_def)
  have "fd_text (fst (monitor_of {} {TX_PACKETS})) 3 = Some ''9223372036854775808\<newline>''"
    by code_simp
  moreover have "snapshot (store (snd (monitor_of {} {TX_PACKETS})) (Tx TX_PACKETS)
                  \<lparr>nd_value = 777, nd_fd = 3\<rparr>) (Tx TX_PACKETS) = 777"
    by code_simp
  moreover have
    "snd (snd (update_all (fst (monitor_of {} {TX_PACKETS}))
                 (store (snd (monitor_of {} {TX_PACKETS})) (Tx TX_PACKETS)
                    \<lparr>nd_value = 777, nd_fd = 3\<rparr>)))
       = Some (ERROR (Unable_to_convert ''9223372036854775808\<newline>'' 3) ERANGE)"
    by code_simp
  moreover have
    "snapshot (fst (snd (update_all (fst (monitor_of {} {TX_PACKETS}))
                 (store (snd (monitor_of {} {TX_PACKETS})) (Tx TX_PACKETS)
                    \<lparr>nd_value = 777, nd_fd = 3\<rparr>)))) (Tx TX_PACKETS) = 777"
    by code_simp
  ultimately show ?thesis unfolding d by simp
qed

subsection \<open>A text without digits\<close>

text \<open>C2 does not hold of the code. The object tracks \<open>RX_PACKETS\<close> with the
  cached value 777, and the resource holds "abc". \<open>errno\<close> is 0 at the call
  and the C library is one that leaves \<open>errno\<close> alone when \<open>strtol\<close> finds no
  digit. \<open>strtol\<close> returns 0 and has consumed nothing (\<open>endptr\<close> is the start
  of the text), \<open>errno\<close> is still 0, and \<open>update_one\<close> looks at nothing else:
  \<open>update_all\<close> returns without an exception and the cached 777 has become
  0.\<close>

theorem non_numeric_text_is_stored:
  "fd_text (fst (monitor_of {RX_PACKETS} {})) 3 = Some ''abc''
   \<and> errno (fst (monitor_of {RX_PACKETS} {})) = 0
   \<and> \<not> noconv_einval (fst (monitor_of {RX_PACKETS} {}))
   \<and> snd (strtol (fst (monitor_of {RX_PACKETS} {})) ''abc'') = (0, 0)
   \<and> snapshot (store (snd (monitor_of {RX_PACKETS} {})) (Rx RX_PACKETS)
                  \<lparr>nd_value = 777, nd_fd = 3\<rparr>) (Rx RX_PACKETS) = 777
   \<and> snd (snd (update_all (fst (monitor_of {RX_PACKETS} {}))
                 (store (snd (monitor_of {RX_PACKETS} {})) (Rx RX_PACKETS)
                    \<lparr>nd_value = 777, nd_fd = 3\<rparr>))) = None
   \<and> snapshot (fst (snd (update_all (fst (monitor_of {RX_PACKETS} {}))
                 (store (snd (monitor_of {RX_PACKETS} {})) (Rx RX_PACKETS)
                    \<lparr>nd_value = 777, nd_fd = 3\<rparr>)))) (Rx RX_PACKETS) = 0"
  by code_simp

text \<open>With a C library whose \<open>strtol\<close> sets \<open>EINVAL\<close> when it finds no digit,
  the same call throws, through \<open>ERROR\<close>.\<close>

lemma non_numeric_text_einval:
  "snd (snd (update_all ((fst (monitor_of {RX_PACKETS} {}))\<lparr>noconv_einval := True\<rparr>)
                        (snd (monitor_of {RX_PACKETS} {}))))
     = Some (ERROR (Unable_to_convert ''abc'' 3) EINVAL)"
  by code_simp

subsection \<open>An update that fails\<close>

text \<open>When \<open>update_all\<close> ends with an exception, it is the exception that
  \<open>update_one\<close> threw for one tracked counter \<open>c\<close>, and the object is what
  the updates of the counters before \<open>c\<close> have made of it.\<close>

lemma update_all_exception_origin:
  assumes "update_all s m = (s', m', Some e)"
  shows "same_handles m m'
         \<and> (\<exists>pre c post nd s0.
               all_counters = pre @ c # post
               \<and> update_counters s m pre = (s0, m', None)
               \<and> tracked m' c = Some nd
               \<and> update_one s0 (nd_fd nd) = (s', Inl e)
               \<and> (\<forall>d \<in> set (c # post).
                     tracked m' d = tracked m d \<and> snapshot m' d = snapshot m d))"
proof -
  note u = assms[unfolded update_all_counters]
  have h: "same_handles m m'" using update_counters_frame[OF u] by simp
  from update_counters_aborts_at[OF u] obtain pre c post nd s0 where
    p: "all_counters = pre @ c # post" "update_counters s m pre = (s0, m', None)"
      "tracked m' c = Some nd" "update_one s0 (nd_fd nd) = (s', Inl e)" by blast
  have keep: "\<forall>d. d \<notin> set pre \<longrightarrow> tracked m' d = tracked m d"
    using update_counters_frame[OF p(2)] by simp
  have "d \<notin> set pre" if "d \<in> set (c # post)" for d
    using distinct_all_counters that unfolding p(1) by auto
  then have "\<forall>d \<in> set (c # post). tracked m' d = tracked m d \<and> snapshot m' d = snapshot m d"
    using keep by (simp add: snapshot_tracked)
  then show ?thesis using h p by blast
qed

text \<open>C3, as the code has it. Let a call of \<open>update_all\<close> arrive at a tracked
  counter \<open>c\<close> (the counters visited before \<open>c\<close> are read without an
  exception) for which \<open>update_one\<close> throws \<open>e\<close>: its rewind, its read or its
  conversion fails. (\<open>update_one\<close> is taken in the state at the call: the
  updates of the counters visited before \<open>c\<close> change neither the resources
  nor \<open>errno\<close>.) Then \<open>update_all\<close> ends with \<open>e\<close>: the whole call aborts. The
  object tracks the same counters through the same descriptors as before. The
  entry of \<open>c\<close> and of every counter visited after \<open>c\<close> is as it was before the
  call, and so is what the snapshot reports for them. Every tracked counter
  visited before \<open>c\<close> (receive kinds, then transmit kinds, each in the order
  of the enumeration) holds the value that \<open>update_one\<close> has just read for
  it.\<close>

theorem failed_read_aborts_update:
  assumes "tracked m c = Some nd" "arrives_at s m c"
    and "snd (update_one s (nd_fd nd)) = Inl e"
  shows "\<exists>s' m'. update_all s m = (s', m', Some e)
          \<and> same_handles m m'
          \<and> (\<forall>d \<in> set (visited_from c).
                tracked m' d = tracked m d \<and> snapshot m' d = snapshot m d)
          \<and> (\<forall>d \<in> set (visited_before c). \<forall>nd'. tracked m d = Some nd' \<longrightarrow>
                snd (update_one s (nd_fd nd')) = Inr (snapshot m' d))"
  by (rule update_all_first_failure[OF assms])

theorem failed_read_aborts_update_witness:
  "snd (update_one (fst (monitor_of {RX_BYTES, RX_ERRORS} {})) 4)
     = Inl (ERROR (Read_nothing (- 1) 4) 5)
   \<and> snd (snd (update_all (fst (monitor_of {RX_BYTES, RX_ERRORS} {}))
                          (snd (monitor_of {RX_BYTES, RX_ERRORS} {}))))
     = Some (ERROR (Read_nothing (- 1) 4) 5)
   \<and> same_handles (snd (monitor_of {RX_BYTES, RX_ERRORS} {}))
        (fst (snd (update_all (fst (monitor_of {RX_BYTES, RX_ERRORS} {}))
                              (snd (monitor_of {RX_BYTES, RX_ERRORS} {})))))
   \<and> snapshot (fst (snd (update_all (fst (monitor_of {RX_BYTES, RX_ERRORS} {}))
                                     (snd (monitor_of {RX_BYTES, RX_ERRORS} {})))))
        (Rx RX_ERRORS) = 0
   \<and> snd (update_one (fst (monitor_of {RX_BYTES, RX_ERRORS} {})) 3)
       = Inr (snapshot (fst (snd (update_all (fst (monitor_of {RX_BYTES, RX_ERRORS} {}))
                                             (snd (monitor_of {RX_BYTES, RX_ERRORS} {})))))
                (Rx RX_BYTES))"
proof -
  let ?S = "fst (monitor_of {RX_BYTES, RX_ERRORS} {})"
  let ?M = "snd (monitor_of {RX_BYTES, RX_ERRORS} {})"
  let ?nd = "\<lparr>nd_value = 0, nd_fd = 4\<rparr>"
  let ?nb = "\<lparr>nd_value = 0, nd_fd = 3\<rparr>"
  have t: "tracked ?M (Rx RX_ERRORS) = Some ?nd" by code_simp
  have tb: "tracked ?M (Rx RX_BYTES) = Some ?nb" by code_simp
  have vb: "Rx RX_BYTES \<in> set (visited_before (Rx RX_ERRORS))" by code_simp
  have ar: "arrives_at ?S ?M (Rx RX_ERRORS)" by code_simp
  have f: "snd (update_one ?S 4) = Inl (ERROR (Read_nothing (- 1) 4) 5)" by code_simp
  then have f': "snd (update_one ?S (nd_fd ?nd)) = Inl (ERROR (Read_nothing (- 1) 4) 5)"
    by simp
  from failed_read_aborts_update[OF t ar f'] obtain s' m' where
    u: "update_all ?S ?M = (s', m', Some (ERROR (Read_nothing (- 1) 4) 5))"
      "same_handles ?M m'"
      "\<forall>d \<in> set (visited_from (Rx RX_ERRORS)).
          tracked m' d = tracked ?M d \<and> snapshot m' d = snapshot ?M d"
      "\<forall>d \<in> set (visited_before (Rx RX_ERRORS)). \<forall>nd'. tracked ?M d = Some nd' \<longrightarrow>
          snd (update_one ?S (nd_fd nd')) = Inr (snapshot m' d)"
    by blast
  have "snapshot m' (Rx RX_ERRORS) = snapshot ?M (Rx RX_ERRORS)"
    using u(3) visited_from_self[of "Rx RX_ERRORS"] by blast
  moreover have "snapshot ?M (Rx RX_ERRORS) = 0" using t by (simp add: snapshot_tracked)
  moreover have "snd (update_one ?S (nd_fd ?nb)) = Inr (snapshot m' (Rx RX_BYTES))"
    using u(4) vb tb by blast
  ultimately show ?thesis using f u(1,2) by simp
qed

text \<open>C3, as the claim has it, fails: the object tracks \<open>RX_BYTES\<close> (the text
  "12345") and \<open>RX_ERRORS\<close> (every read fails with error number 5), both
  with the cached value 0. \<open>update_all\<close> ends with the exception for the
  failed read, and the cached value of \<open>RX_BYTES\<close> has changed from 0 to
  12345.\<close>

theorem failed_update_changes_earlier_counter:
  "snd (snd (update_all (fst (monitor_of {RX_BYTES, RX_ERRORS} {}))
                        (snd (monitor_of {RX_BYTES, RX_ERRORS} {}))))
     = Some (ERROR (Read_nothing (- 1) 4) 5)
   \<and> snapshot (snd (monitor_of {RX_BYTES, RX_ERRORS} {})) (Rx RX_BYTES) = 0
   \<and> snapshot (fst (snd (update_all (fst (monitor_of {RX_BYTES, RX_ERRORS} {}))
                                     (snd (monitor_of {RX_BYTES, RX_ERRORS} {})))))
        (Rx RX_BYTES) = 12345"
  by code_simp

subsection \<open>Counters that are not tracked\<close>

text \<open>C6. Let the constructor have returned an object, and let a client have
  made any sequence of calls on it, with any changes of the environment in
  between. Right after the constructor both snapshots are zero in every
  member. After the calls, a counter that no \<open>set_rx_stats_to_update\<close> or
  \<open>set_tx_stats_to_update\<close> call asked for is not tracked, and a counter
  that is not tracked is 0 in the snapshot; so are the four accessors for
  counters that were not asked for. The calls of \<open>update_all\<close>,
  \<open>update_receive_data\<close> and \<open>update_transmit_data\<close> among them, however
  many and whether they threw or not, do not change that.\<close>

theorem untracked_counters_read_zero:
  assumes "construct s interface = (s0, Inr m0)"
    and "client_run (s0, m0) ops = (s1, m1)"
  shows "get_receive_data m0 =
           \<lparr>bytes = 0, compressed = 0, CRC_errors = 0, dropped = 0, errors = 0,
            FIFO_errors = 0, frame_errors = 0, length_errors = 0, missed_errors = 0,
            over_errors = 0, packets = 0\<rparr>
         \<and> get_transmit_data m0 =
           \<lparr>tx_aborted_errors = 0, tx_bytes = 0, tx_carrier_errors = 0, tx_compressed = 0,
            tx_dropped = 0, tx_errors = 0, tx_FIFO_errors = 0, tx_heartbeat_errors = 0,
            tx_packets = 0, tx_window_errors = 0\<rparr>
         \<and> (\<forall>c. c \<notin> requested ops \<longrightarrow> tracked m1 c = None)
         \<and> (\<forall>c. tracked m1 c = None \<longrightarrow> snapshot m1 c = 0)
         \<and> (Rx RX_BYTES \<notin> requested ops \<longrightarrow> get_rx_bytes m1 = 0)
         \<and> (Rx RX_PACKETS \<notin> requested ops \<longrightarrow> get_rx_packets m1 = 0)
         \<and> (Tx TX_BYTES \<notin> requested ops \<longrightarrow> get_tx_bytes m1 = 0)
         \<and> (Tx TX_PACKETS \<notin> requested ops \<longrightarrow> get_tx_packets m1 = 0)"
proof -
  note c0 = construct_object[OF assms(1)]
  have rx0: "rx_to_update m0 r = None" for r using c0(1)[of "Rx r"] by simp
  have tx0: "tx_to_update m0 t = None" for t using c0(1)[of "Tx t"] by simp
  have a: "get_receive_data m0 =
           \<lparr>bytes = 0, compressed = 0, CRC_errors = 0, dropped = 0, errors = 0,
            FIFO_errors = 0, frame_errors = 0, length_errors = 0, missed_errors = 0,
            over_errors = 0, packets = 0\<rparr>"
    by (simp add: get_receive_data_def fetch_one_rx_def rx0)
  have b: "get_transmit_data m0 =
           \<lparr>tx_aborted_errors = 0, tx_bytes = 0, tx_carrier_errors = 0, tx_compressed = 0,
            tx_dropped = 0, tx_errors = 0, tx_FIFO_errors = 0, tx_heartbeat_errors = 0,
            tx_packets = 0, tx_window_errors = 0\<rparr>"
    by (simp add: get_transmit_data_def fetch_one_tx_def tx0)
  have un: "tracked m1 c = None" if "c \<notin> requested ops" for c
    using client_run_inv[OF assms(2) c0(2)] c0(1)[of c] that by blast
  have z: "snapshot m1 c = 0" if "tracked m1 c = None" for c
    using that by (simp add: snapshot_tracked)
  have g: "get_rx_bytes m1 = snapshot m1 (Rx RX_BYTES)"
    "get_rx_packets m1 = snapshot m1 (Rx RX_PACKETS)"
    "get_tx_bytes m1 = snapshot m1 (Tx TX_BYTES)"
    "get_tx_packets m1 = snapshot m1 (Tx TX_PACKETS)"
    by (simp_all add: get_rx_bytes_def get_rx_packets_def get_tx_bytes_def get_tx_packets_def
        get_receive_data_def get_transmit_data_def)
  show ?thesis using a b un z unfolding g by blast
qed

theorem untracked_counters_read_zero_witness:
  "\<exists>s0 m0 s1 m1.
      construct boot ''eth0'' = (s0, Inr m0)
      \<and> client_run (s0, m0) [Set_rx {RX_BYTES}, Update_all, Env_errno 5, Update_all, Update_receive]
           = (s1, m1)
      \<and> Rx RX_PACKETS \<notin> requested [Set_rx {RX_BYTES}, Update_all, Env_errno 5, Update_all, Update_receive]
      \<and> snapshot m1 (Rx RX_BYTES) = 12345
      \<and> snapshot m1 (Rx RX_PACKETS) = 0
      \<and> get_rx_packets m1 = 0"
proof -
  let ?ops = "[Set_rx {RX_BYTES}, Update_all, Env_errno 5, Update_all, Update_receive]"
  let ?c = "construct boot ''eth0''"
  let ?m0 = "projr (snd ?c)"
  let ?r = "client_run (fst ?c, ?m0) ?ops"
  have "\<not> isl (snd ?c)" by code_simp
  then have c: "?c = (fst ?c, Inr ?m0)" by (cases "snd ?c") (auto simp: prod_eq_iff)
  have r: "client_run (fst ?c, ?m0) ?ops = (fst ?r, snd ?r)" by simp
  have n: "Rx RX_PACKETS \<notin> requested ?ops" by simp
  have v: "snapshot (snd ?r) (Rx RX_BYTES) = 12345" by code_simp
  from untracked_counters_read_zero[OF c r] n
  have "snapshot (snd ?r) (Rx RX_PACKETS) = 0 \<and> get_rx_packets (snd ?r) = 0" by blast
  then show ?thesis using c r n v by blast
qed

lemma fold_print_map:
  "fold (\<lambda>c. print (f c)) (map g ks) s = fold (\<lambda>k. print (f (g k))) ks s"
  by (simp add: fold_map comp_def)

lemma set_rx_already_tracked:
  assumes "\<forall>k \<in> S. rx_to_update m k \<noteq> None"
  shows "set_rx_stats_to_update s m S =
           (fold (\<lambda>k. print (Already_monitoring (rx_name k)))
              (filter (\<lambda>i. i \<in> S) all_rx_fields) s, m, None)"
proof -
  have "\<forall>c \<in> set (map Rx (filter (\<lambda>i. i \<in> S) all_rx_fields)). tracked m c \<noteq> None"
    using assms by auto
  from subscribe_counters_noop[OF this, of s] show ?thesis
    by (simp add: set_rx_counters fold_print_map)
qed

lemma set_tx_already_tracked:
  assumes "\<forall>k \<in> T. tx_to_update m k \<noteq> None"
  shows "set_tx_stats_to_update s m T =
           (fold (\<lambda>k. print (Already_monitoring (tx_name k)))
              (filter (\<lambda>i. i \<in> T) all_tx_fields) s, m, None)"
proof -
  have "\<forall>c \<in> set (map Tx (filter (\<lambda>i. i \<in> T) all_tx_fields)). tracked m c \<noteq> None"
    using assms by auto
  from subscribe_counters_noop[OF this, of s] show ?thesis
    by (simp add: set_tx_counters fold_print_map)
qed

lemma set_rx_then_tracked:
  assumes "set_rx_stats_to_update s m S = (s', m', None)"
  shows "\<forall>k \<in> S. rx_to_update m' k \<noteq> None"
proof
  fix k assume "k \<in> S"
  then have "Rx k \<in> set (map Rx (filter (\<lambda>i. i \<in> S) all_rx_fields))"
    using set_filter_all_rx[of S] by (simp only: set_map) blast
  then have "tracked m' (Rx k) \<noteq> None"
    using subscribe_counters_frame[OF assms[unfolded set_rx_counters]] by blast
  then show "rx_to_update m' k \<noteq> None" by simp
qed

lemma set_tx_then_tracked:
  assumes "set_tx_stats_to_update s m T = (s', m', None)"
  shows "\<forall>k \<in> T. tx_to_update m' k \<noteq> None"
proof
  fix k assume "k \<in> T"
  then have "Tx k \<in> set (map Tx (filter (\<lambda>i. i \<in> T) all_tx_fields))"
    using set_filter_all_tx[of T] by (simp only: set_map) blast
  then have "tracked m' (Tx k) \<noteq> None"
    using subscribe_counters_frame[OF assms[unfolded set_tx_counters]] by blast
  then show "tx_to_update m' k \<noteq> None" by simp
qed

subsection \<open>Subscribing twice\<close>

text \<open>C7. At any point of the life of an object (the constructor has returned
  it and a client has made any calls on it):
  \<^item> a call of \<open>set_rx_stats_to_update\<close> or \<open>set_tx_stats_to_update\<close> for
    kinds that are all tracked already returns without an exception, leaves
    the object as it is, and changes the process only by the lines "already
    monitoring" it prints: no \<open>open\<close>, no new descriptor;
  \<^item> so does a call that repeats a call that returned without an exception;
  \<^item> the successful \<open>open\<close> calls since the constructor are one for each
    tracked counter, on the path of that counter, giving the descriptor its
    entry holds: no path was opened twice and no two entries share a
    descriptor.\<close>

theorem subscribing_again_is_a_no_op:
  assumes "construct s interface = (s0, Inr m0)"
    and "client_run (s0, m0) ops = (s1, m1)"
  shows "((\<forall>k \<in> S. rx_to_update m1 k \<noteq> None) \<longrightarrow>
            set_rx_stats_to_update s1 m1 S =
              (fold (\<lambda>k. print (Already_monitoring (rx_name k)))
                 (filter (\<lambda>i. i \<in> S) all_rx_fields) s1, m1, None))
         \<and> ((\<forall>k \<in> T. tx_to_update m1 k \<noteq> None) \<longrightarrow>
            set_tx_stats_to_update s1 m1 T =
              (fold (\<lambda>k. print (Already_monitoring (tx_name k)))
                 (filter (\<lambda>i. i \<in> T) all_tx_fields) s1, m1, None))
         \<and> (\<forall>s2 m2. set_rx_stats_to_update s1 m1 S = (s2, m2, None) \<longrightarrow>
               (\<exists>s3. set_rx_stats_to_update s2 m2 S = (s3, m2, None)
                  \<and> calls s3 = calls s2 \<and> fdtab s3 = fdtab s2))
         \<and> (\<forall>s2 m2. set_tx_stats_to_update s1 m1 T = (s2, m2, None) \<longrightarrow>
               (\<exists>s3. set_tx_stats_to_update s2 m2 T = (s3, m2, None)
                  \<and> calls s3 = calls s2 \<and> fdtab s3 = fdtab s2))
         \<and> (\<exists>opens. all_opens (calls s1) = all_opens (calls s0) @ opens
               \<and> distinct (map fst opens) \<and> distinct (map snd opens)
               \<and> set opens = {(counter_path m1 c, nd_fd nd) | c nd. tracked m1 c = Some nd})"
proof -
  have rx2: "\<exists>s3. set_rx_stats_to_update s2 m2 S = (s3, m2, None)
                  \<and> calls s3 = calls s2 \<and> fdtab s3 = fdtab s2"
    if "set_rx_stats_to_update s1 m1 S = (s2, m2, None)" for s2 m2
    using set_rx_already_tracked[OF set_rx_then_tracked[OF that], of s2] by simp
  have tx2: "\<exists>s3. set_tx_stats_to_update s2 m2 T = (s3, m2, None)
                  \<and> calls s3 = calls s2 \<and> fdtab s3 = fdtab s2"
    if "set_tx_stats_to_update s1 m1 T = (s2, m2, None)" for s2 m2
    using set_tx_already_tracked[OF set_tx_then_tracked[OF that], of s2] by simp
  have "lifetime_inv (calls s0) s1 m1"
    using client_run_inv[OF assms(2) construct_object(2)[OF assms(1)]] by simp
  then have life: "\<exists>opens. all_opens (calls s1) = all_opens (calls s0) @ opens
               \<and> distinct (map fst opens) \<and> distinct (map snd opens)
               \<and> set opens = {(counter_path m1 c, nd_fd nd) | c nd. tracked m1 c = Some nd}"
    unfolding lifetime_inv_def by blast
  show ?thesis
    using set_rx_already_tracked[of S m1 s1] set_tx_already_tracked[of T m1 s1] rx2 tx2 life
    by blast
qed

theorem subscribing_again_is_a_no_op_witness:
  "\<exists>s0 m0 s1 m1.
      construct boot ''eth0'' = (s0, Inr m0)
      \<and> client_run (s0, m0) [Set_rx {RX_BYTES}] = (s1, m1)
      \<and> rx_to_update m1 RX_BYTES \<noteq> None
      \<and> set_rx_stats_to_update s1 m1 {RX_BYTES}
           = (print (Already_monitoring ''RX_BYTES'') s1, m1, None)"
proof -
  let ?c = "construct boot ''eth0''"
  let ?m0 = "projr (snd ?c)"
  let ?r = "client_run (fst ?c, ?m0) [Set_rx {RX_BYTES}]"
  have "\<not> isl (snd ?c)" by code_simp
  then have c: "?c = (fst ?c, Inr ?m0)" by (cases "snd ?c") (auto simp: prod_eq_iff)
  have r: "client_run (fst ?c, ?m0) [Set_rx {RX_BYTES}] = (fst ?r, snd ?r)" by simp
  have t: "rx_to_update (snd ?r) RX_BYTES \<noteq> None" by code_simp
  then have all: "\<forall>k \<in> {RX_BYTES}. rx_to_update (snd ?r) k \<noteq> None" by simp
  have f: "filter (\<lambda>i. i \<in> {RX_BYTES}) all_rx_fields = [RX_BYTES]"
    by (simp add: all_rx_fields_def)
  from subscribing_again_is_a_no_op[OF c r, of "{RX_BYTES}" "{}"] all
  have "set_rx_stats_to_update (fst ?r) (snd ?r) {RX_BYTES} =
      (fold (\<lambda>k. print (Already_monitoring (rx_name k)))
         (filter (\<lambda>i. i \<in> {RX_BYTES}) all_rx_fields) (fst ?r), snd ?r, None)"
    by blast
  then have "set_rx_stats_to_update (fst ?r) (snd ?r) {RX_BYTES}
           = (print (Already_monitoring ''RX_BYTES'') (fst ?r), snd ?r, None)"
    unfolding f by simp
  then show ?thesis using c r t by blast
qed

subsection \<open>The destructor\<close>

lemma sys_close_effect:
  "calls (fst (sys_close s fd)) = calls s @ [Sys_close fd (snd (sys_close s fd))]"
  "stdout (fst (sys_close s fd)) = stdout s"
  "fst ` set (fdtab (fst (sys_close s fd))) = fst ` set (fdtab s) - {fd}"
proof -
  show "calls (fst (sys_close s fd)) = calls s @ [Sys_close fd (snd (sys_close s fd))]"
    by (simp add: sys_close_def split: option.splits)
  show "stdout (fst (sys_close s fd)) = stdout s"
    by (simp add: sys_close_def split: option.splits)
  have d: "fst ` set (AList.delete fd (fdtab s)) = fst ` set (fdtab s) - {fd}"
    using delete_keys[of fd "fdtab s"] by (metis list.set_map set_removeAll)
  have n: "fst ` set (fdtab s) - {fd} = fst ` set (fdtab s)" if "map_of (fdtab s) fd = None"
    using that by (auto simp: map_of_eq_None_iff)
  show "fst ` set (fdtab (fst (sys_close s fd))) = fst ` set (fdtab s) - {fd}"
    using d n by (simp add: sys_close_def split: option.splits)
qed

lemma close_each_effect:
  "(\<exists>rs. length rs = length nds
        \<and> calls (close_each s nds) =
            calls s @ map (\<lambda>(nd, r). Sys_close (nd_fd nd) r) (zip nds rs))
   \<and> stdout (close_each s nds) = stdout s
   \<and> fst ` set (fdtab (close_each s nds)) = fst ` set (fdtab s) - set (map nd_fd nds)"
proof (induction nds arbitrary: s)
  case Nil
  then show ?case by simp
next
  case (Cons nd nds)
  let ?s1 = "fst (sys_close s (nd_fd nd))"
  let ?r = "snd (sys_close s (nd_fd nd))"
  from Cons[of ?s1] obtain rs where
    rs: "length rs = length nds"
      "calls (close_each ?s1 nds) = calls ?s1 @ map (\<lambda>(nd, r). Sys_close (nd_fd nd) r) (zip nds rs)"
    and st: "stdout (close_each ?s1 nds) = stdout ?s1"
    and fd: "fst ` set (fdtab (close_each ?s1 nds)) = fst ` set (fdtab ?s1) - set (map nd_fd nds)"
    by blast
  have "length (?r # rs) = length (nd # nds)
      \<and> calls (close_each s (nd # nds)) =
            calls s @ map (\<lambda>(nd, r). Sys_close (nd_fd nd) r) (zip (nd # nds) (?r # rs))"
    using rs by (simp add: sys_close_effect(1))
  then have a: "\<exists>rs. length rs = length (nd # nds)
      \<and> calls (close_each s (nd # nds)) =
            calls s @ map (\<lambda>(nd, r). Sys_close (nd_fd nd) r) (zip (nd # nds) rs)"
    by blast
  have b: "stdout (close_each s (nd # nds)) = stdout s" using st by (simp add: sys_close_effect(2))
  have c: "fst ` set (fdtab (close_each s (nd # nds)))
      = fst ` set (fdtab s) - set (map nd_fd (nd # nds))"
    using fd by (auto simp: sys_close_effect(3))
  show ?case using a b c by blast
qed

lemma destroy_effect:
  "(\<exists>rs. length rs = length (entries m)
        \<and> calls (destroy s m) =
            calls s @ map (\<lambda>(nd, r). Sys_close (nd_fd nd) r) (zip (entries m) rs))
   \<and> stdout (destroy s m) = stdout s @ [Shutting_down]
   \<and> fst ` set (fdtab (destroy s m)) = fst ` set (fdtab s) - set (map nd_fd (entries m))"
proof -
  have split: "close_each s (xs @ ys) = close_each (close_each s xs) ys" for s xs ys
    by (induction xs arbitrary: s) simp_all
  have d: "destroy s m = close_each (print Shutting_down s) (entries m)"
    by (simp add: destroy_def entries_def split Let_def)
  show ?thesis unfolding d using close_each_effect[of "entries m" "print Shutting_down s"]
    by simp
qed

lemma entries_tracked: "entries m = List.map_filter (tracked m) all_counters"
  by (simp add: entries_def rx_entries_def tx_entries_def all_counters_def
      map_filter_def filter_map comp_def)

lemma set_entries: "set (map nd_fd (entries m)) = {nd_fd nd | c nd. tracked m c = Some nd}"
proof -
  have "set (entries m) = {nd. \<exists>c. tracked m c = Some nd}"
    unfolding entries_tracked map_filter_def using all_counters_complete
    by (auto simp: image_iff) (metis option.sel)
  then show ?thesis by auto
qed

lemma distinct_snd_unique:
  assumes "distinct (map snd xs)" "(a, k) \<in> set xs" "(a', k) \<in> set xs"
  shows "a = a'"
proof -
  have "inj_on snd (set xs)" using assms(1) by (simp add: distinct_map)
  from inj_onD[OF this _ assms(2,3)] show ?thesis by simp
qed

lemma distinct_entries:
  assumes "lifetime_inv b s m"
  shows "distinct (map nd_fd (entries m))"
proof -
  from assms obtain opens where
    i: "distinct (map snd opens)"
      "set opens = {(counter_path m c, nd_fd nd) | c nd. tracked m c = Some nd}"
    unfolding lifetime_inv_def by blast
  have inj: "c = c'" if "tracked m c = Some nd" "tracked m c' = Some nd'" "nd_fd nd = nd_fd nd'"
    for c c' nd nd'
  proof -
    have "(counter_path m c, nd_fd nd) \<in> set opens" "(counter_path m c', nd_fd nd) \<in> set opens"
      unfolding i(2) using that by auto
    then have "counter_path m c = counter_path m c'"
      by (rule distinct_snd_unique[OF i(1)])
    then show ?thesis by (rule counter_path_inj)
  qed
  have "distinct (filter (\<lambda>c. tracked m c \<noteq> None) all_counters)"
    using distinct_all_counters by simp
  moreover have "inj_on (\<lambda>c. nd_fd (the (tracked m c)))
      (set (filter (\<lambda>c. tracked m c \<noteq> None) all_counters))"
    by (rule inj_onI) (auto dest: inj)
  ultimately show ?thesis
    unfolding entries_tracked map_filter_def by (simp add: distinct_map comp_def)
qed

text \<open>Let the constructor have returned an object and a client have made any
  calls on it. The destructor calls \<open>close\<close> once for
  each entry of the two maps, in their order, whatever the earlier \<open>close\<close>
  calls returned, and makes no other system call. The entries hold distinct
  descriptors; they are exactly the descriptors that the successful \<open>open\<close>
  calls since the constructor returned; all of them are open when the
  destructor starts and none of them is open when it ends. The destructor
  prints "Shutting down" and nothing else, and throws nothing.\<close>

lemma destructor_closes_every_handle:
  assumes "construct s interface = (s0, Inr m0)"
    and "client_run (s0, m0) ops = (s1, m1)"
  shows "(\<exists>rs. length rs = length (entries m1)
            \<and> calls (destroy s1 m1) =
                calls s1 @ map (\<lambda>(nd, r). Sys_close (nd_fd nd) r) (zip (entries m1) rs))
         \<and> stdout (destroy s1 m1) = stdout s1 @ [Shutting_down]
         \<and> distinct (map nd_fd (entries m1))
         \<and> (\<exists>opens. all_opens (calls s1) = all_opens (calls s0) @ opens
               \<and> set (map snd opens) = set (map nd_fd (entries m1)))
         \<and> set (map nd_fd (entries m1)) \<subseteq> fst ` set (fdtab s1)
         \<and> set (map nd_fd (entries m1)) \<inter> fst ` set (fdtab (destroy s1 m1)) = {}"
proof -
  have inv: "lifetime_inv (calls s0) s1 m1"
    using client_run_inv[OF assms(2) construct_object(2)[OF assms(1)]] by simp
  then obtain opens where
    i: "all_opens (calls s1) = all_opens (calls s0) @ opens"
      "set opens = {(counter_path m1 c, nd_fd nd) | c nd. tracked m1 c = Some nd}"
      "snd ` set opens \<subseteq> fst ` set (fdtab s1)"
    unfolding lifetime_inv_def by blast
  have "snd ` set opens = {nd_fd nd | c nd. tracked m1 c = Some nd}"
  proof (intro set_eqI iffI)
    fix k assume "k \<in> snd ` set opens"
    then obtain p where "(p, k) \<in> set opens" by auto
    then show "k \<in> {nd_fd nd | c nd. tracked m1 c = Some nd}" unfolding i(2) by blast
  next
    fix k assume "k \<in> {nd_fd nd | c nd. tracked m1 c = Some nd}"
    then obtain c nd where "k = nd_fd nd" "tracked m1 c = Some nd" by blast
    then have "(counter_path m1 c, k) \<in> set opens" unfolding i(2) by blast
    then show "k \<in> snd ` set opens" by force
  qed
  then have so: "set (map snd opens) = set (map nd_fd (entries m1))"
    unfolding set_entries by simp
  then have sub: "set (map nd_fd (entries m1)) \<subseteq> fst ` set (fdtab s1)"
    using i(3) by simp
  have ex: "\<exists>opens. all_opens (calls s1) = all_opens (calls s0) @ opens
               \<and> set (map snd opens) = set (map nd_fd (entries m1))"
    using i(1) so by blast
  note d = destroy_effect[of m1 s1]
  have gone: "set (map nd_fd (entries m1)) \<inter> fst ` set (fdtab (destroy s1 m1)) = {}"
    using d by auto
  show ?thesis using d distinct_entries[OF inv] ex sub gone by blast
qed

text \<open>An instance: three counters on the descriptors 3, 4 and 5, and a
  \<open>close\<close> of descriptor 3 that fails.\<close>

lemma destructor_closes_every_handle_example:
  "\<exists>s0 m0 s1 m1.
      construct boot ''eth0'' = (s0, Inr m0)
      \<and> client_run (s0, m0)
           [Set_rx {RX_BYTES, RX_PACKETS}, Set_tx {TX_BYTES}, Env_close_error 3 (Some 5)]
           = (s1, m1)
      \<and> map nd_fd (entries m1) = [3, 4, 5]
      \<and> distinct (map nd_fd (entries m1))
      \<and> calls (destroy s1 m1) = calls s1 @ [Sys_close 3 (- 1), Sys_close 4 0, Sys_close 5 0]
      \<and> stdout (destroy s1 m1) = stdout s1 @ [Shutting_down]"
proof -
  let ?ops = "[Set_rx {RX_BYTES, RX_PACKETS}, Set_tx {TX_BYTES}, Env_close_error 3 (Some 5)]"
  let ?c = "construct boot ''eth0''"
  let ?m0 = "projr (snd ?c)"
  let ?r = "client_run (fst ?c, ?m0) ?ops"
  have "\<not> isl (snd ?c)" by code_simp
  then have c: "?c = (fst ?c, Inr ?m0)" by (cases "snd ?c") (auto simp: prod_eq_iff)
  have r: "client_run (fst ?c, ?m0) ?ops = (fst ?r, snd ?r)" by simp
  have e: "map nd_fd (entries (snd ?r)) = [3, 4, 5]" by code_simp
  have k: "calls (destroy (fst ?r) (snd ?r))
      = calls (fst ?r) @ [Sys_close 3 (- 1), Sys_close 4 0, Sys_close 5 0]"
    by code_simp
  note h = destructor_closes_every_handle[OF c r]
  have d1: "distinct (map nd_fd (entries (snd ?r)))" using h by (elim conjE)
  have d2: "stdout (destroy (fst ?r) (snd ?r)) = stdout (fst ?r) @ [Shutting_down]"
    using h by (elim conjE)
  show ?thesis
    by (rule exI[of _ "fst ?c"], rule exI[of _ ?m0], rule exI[of _ "fst ?r"],
        rule exI[of _ "snd ?r"])
      (intro conjI c r e d1 k d2)
qed

text \<open>C8 does not hold of the code where it says that a failure of \<open>close\<close>
  is reported. The object tracks \<open>RX_BYTES\<close>, \<open>RX_PACKETS\<close> and \<open>TX_BYTES\<close>
  through the descriptors 3, 4 and 5, and \<open>close\<close> of descriptor 3 fails
  with error number 5. The destructor calls \<open>close\<close> on all three, once each
  and in this order; the first call returns -1 and leaves 5 in \<open>errno\<close>; the
  destructor drops what \<open>close\<close> returns, and the only line it prints is
  "Shutting down". \<open>program_IO.h\<close> has the macro \<open>report_error\<close> for this
  ("doesn't throw an exception: it just reports what error is thinking. I use
  it in destructors"), and the constructor does test what \<open>closedir\<close>
  returns; the destructor uses neither.\<close>

theorem close_failure_is_not_reported:
  "calls (destroy ((fst (monitor_of {RX_BYTES, RX_PACKETS} {TX_BYTES}))\<lparr>close_error := [3 \<mapsto> 5]\<rparr>)
                  (snd (monitor_of {RX_BYTES, RX_PACKETS} {TX_BYTES})))
     = calls (fst (monitor_of {RX_BYTES, RX_PACKETS} {TX_BYTES}))
         @ [Sys_close 3 (- 1), Sys_close 4 0, Sys_close 5 0]
   \<and> stdout (destroy ((fst (monitor_of {RX_BYTES, RX_PACKETS} {TX_BYTES}))\<lparr>close_error := [3 \<mapsto> 5]\<rparr>)
                   (snd (monitor_of {RX_BYTES, RX_PACKETS} {TX_BYTES})))
     = stdout (fst (monitor_of {RX_BYTES, RX_PACKETS} {TX_BYTES})) @ [Shutting_down]
   \<and> errno (destroy ((fst (monitor_of {RX_BYTES, RX_PACKETS} {TX_BYTES}))\<lparr>close_error := [3 \<mapsto> 5]\<rparr>)
                   (snd (monitor_of {RX_BYTES, RX_PACKETS} {TX_BYTES}))) = 5"
  by code_simp

end
